theory Spec2Isabelle
  imports Main "HOL-Library.AList"
begin

section \<open>Data model of \<open>litcitgraph.graphs\<close>\<close>

text \<open>
  Python dictionaries keep their keys in insertion order and the module iterates
  over them, so a dictionary is an association list whose keys are pairwise distinct:
  \<open>d[k]\<close> is \<open>map_of d k\<close> (a \<open>KeyError\<close> when it is \<open>None\<close>), \<open>d[k] = v\<close> is
  \<open>AList.update k v d\<close> and \<open>d.pop(k, None)\<close> is \<open>AList.delete k d\<close>.
\<close>

type_synonym ScopusID = int
type_synonym DOI = string
type_synonym EID = string

datatype PybliometricsIDTypes = ID_doi | ID_eid

datatype error = ValueError | KeyError

text \<open>The values stored under an attribute name: Python integers, strings and \<open>None\<close>.\<close>

datatype attr = IntV int | StrV string | NoneV

type_synonym PaperProperties = "(string \<times> attr) list"

type_synonym EdgeProperties = "(string \<times> attr) list"

text \<open>
  Modelled from the spec: the module \<open>litcitgraph.types\<close>, which declares \<open>PaperInfo\<close> and
  \<open>PaperProperties\<close>, is not among the sources. The spec gives a paper a stable
  \<open>scopus_id\<close> used as the node key, a bag of graph properties stored as node
  attributes, and equality by full value. The record below has the identifier, the bag
  that \<open>graph_properties_as_dict\<close> returns, and the remaining fields, which only take
  part in equality.
\<close>

record PaperInfo =
  scopus_id :: ScopusID
  graph_properties :: PaperProperties
  other_fields :: "(string \<times> attr) list"

definition graph_properties_as_dict :: "PaperInfo \<Rightarrow> PaperProperties" where
  "graph_properties_as_dict p = graph_properties p"

text \<open>
  The class \<open>CitationGraph(DiGraph)\<close>: the node dictionary and the edge dictionary of the
  directed graph (an edge is keyed by its ordered pair of endpoints), and the attributes
  set by \<open>__init__\<close>. \<open>use_doi\<close> is only annotated there and has no value before
  the initialisation pass.
\<close>

record CitationGraph =
  nodes :: "(ScopusID \<times> PaperProperties) list"
  edges :: "((ScopusID \<times> ScopusID) \<times> EdgeProperties) list"
  name :: string
  use_doi :: "bool option"
  iter_depth :: int
  papers_by_iter_depth :: "int \<rightharpoonup> PaperInfo set"
  retrievals_total :: int
  retrievals_failed :: int

definition CitationGraph_init :: "string \<Rightarrow> CitationGraph" where
  "CitationGraph_init nm =
     \<lparr>nodes = [], edges = [], name = nm, use_doi = None, iter_depth = 0,
      papers_by_iter_depth = Map.empty, retrievals_total = 0, retrievals_failed = 0\<rparr>"

text \<open>\<open>n in graph.nodes\<close> and \<open>graph.has_edge(u, v)\<close>.\<close>

definition has_node :: "CitationGraph \<Rightarrow> ScopusID \<Rightarrow> bool" where
  "has_node graph n = (map_of (nodes graph) n \<noteq> None)"

definition has_edge :: "CitationGraph \<Rightarrow> ScopusID \<Rightarrow> ScopusID \<Rightarrow> bool" where
  "has_edge graph u v = (map_of (edges graph) (u, v) \<noteq> None)"

text \<open>\<open>graph[u][v].get(key)\<close>: an attribute of an edge, \<open>None\<close> when the edge or the
  attribute is absent.\<close>

definition edge_attr :: "CitationGraph \<Rightarrow> ScopusID \<Rightarrow> ScopusID \<Rightarrow> string \<Rightarrow> attr option" where
  "edge_attr graph u v key =
     (case map_of (edges graph) (u, v) of None \<Rightarrow> None | Some d \<Rightarrow> map_of d key)"

text \<open>
  The two methods of \<open>networkx.DiGraph\<close> that the module calls.
  \<open>add_node(n, **attr)\<close> stores the attributes under a node that is absent and
  merges them into the attribute dictionary of a node that is present.
  \<open>add_edge(u, v)\<close> creates missing endpoints with empty attributes and, when the edge
  is absent, stores an empty attribute dictionary under \<open>(u, v)\<close>; an edge that is
  present keeps its dictionary.
\<close>

definition dict_update :: "(string \<times> attr) list \<Rightarrow> (string \<times> attr) list \<Rightarrow> (string \<times> attr) list" where
  "dict_update d new = fold (\<lambda>kv. AList.update (fst kv) (snd kv)) new d"

definition add_node :: "CitationGraph \<Rightarrow> ScopusID \<Rightarrow> PaperProperties \<Rightarrow> CitationGraph" where
  "add_node graph n props =
     (case map_of (nodes graph) n of
        None \<Rightarrow> graph\<lparr>nodes := nodes graph @ [(n, props)]\<rparr>
      | Some d \<Rightarrow> graph\<lparr>nodes := AList.update n (dict_update d props) (nodes graph)\<rparr>)"

definition add_edge :: "CitationGraph \<Rightarrow> ScopusID \<Rightarrow> ScopusID \<Rightarrow> CitationGraph" where
  "add_edge graph u v =
     (let g1 = (if has_node graph u then graph else graph\<lparr>nodes := nodes graph @ [(u, [])]\<rparr>);
          g2 = (if has_node g1 v then g1 else g1\<lparr>nodes := nodes g1 @ [(v, [])]\<rparr>)
      in if has_edge g2 u v then g2 else g2\<lparr>edges := edges g2 @ [((u, v), [])]\<rparr>)"

section \<open>Graph mutation primitives\<close>

definition add_cit_graph_node ::
  "CitationGraph \<Rightarrow> ScopusID \<Rightarrow> PaperProperties \<Rightarrow> CitationGraph" where
  "add_cit_graph_node graph node node_props =
     (if \<not> has_node graph node then add_node graph node node_props else graph)"

text \<open>
  \<open>graph[parent_node][child_node]['weight'] = edge_weight\<close> writes into the attribute
  dictionary of the edge, which exists at that point of \<open>add_cit_graph_edge\<close>.
\<close>

definition set_edge_weight :: "CitationGraph \<Rightarrow> ScopusID \<Rightarrow> ScopusID \<Rightarrow> int \<Rightarrow> CitationGraph" where
  "set_edge_weight graph u v w =
     graph\<lparr>edges := AList.map_entry (u, v) (AList.update ''weight'' (IntV w)) (edges graph)\<rparr>"

definition add_cit_graph_edge ::
  "CitationGraph \<Rightarrow> ScopusID \<Rightarrow> PaperProperties \<Rightarrow> ScopusID \<Rightarrow> PaperProperties
     \<Rightarrow> int option \<Rightarrow> CitationGraph" where
  "add_cit_graph_edge graph parent_node parent_node_props child_node child_node_props edge_weight =
     (let g1 = (if \<not> has_node graph parent_node
                then add_node graph parent_node parent_node_props else graph);
          g2 = (if \<not> has_node g1 child_node
                then add_node g1 child_node child_node_props else g1);
          g3 = (if \<not> has_edge g2 parent_node child_node
                then add_edge g2 parent_node child_node else g2)
      in case edge_weight of
           None \<Rightarrow> g3
         | Some w \<Rightarrow> set_edge_weight g3 parent_node child_node w)"

text \<open>A sequence of calls of \<open>add_cit_graph_node\<close>, in order.\<close>

fun add_cit_graph_nodes ::
  "CitationGraph \<Rightarrow> (ScopusID \<times> PaperProperties) list \<Rightarrow> CitationGraph" where
  "add_cit_graph_nodes graph [] = graph"
| "add_cit_graph_nodes graph (c # cs) = add_cit_graph_nodes (add_cit_graph_node graph (fst c) (snd c)) cs"

text \<open>
  The keys of a dictionary are pairwise distinct: the graphs of the program are the
  records in which \<open>map fst (nodes g)\<close> and \<open>map fst (edges g)\<close> are distinct lists.
  The constructor and every operation below keep that property.
\<close>

text \<open>The identifiers of the nodes of a graph.\<close>

definition node_ids :: "CitationGraph \<Rightarrow> ScopusID set" where
  "node_ids g = fst ` set (nodes g)"

text \<open>
  Two properties of the frontier dictionary: every paper of every frontier is a node of
  the graph, and no identifier occurs in the frontiers of two depths.
\<close>

definition frontiers_in_nodes :: "CitationGraph \<Rightarrow> bool" where
  "frontiers_in_nodes g =
     (\<forall>d ps. papers_by_iter_depth g d = Some ps \<longrightarrow> scopus_id ` ps \<subseteq> node_ids g)"

definition frontiers_disjoint :: "CitationGraph \<Rightarrow> bool" where
  "frontiers_disjoint g =
     (\<forall>d1 d2 ps1 ps2. d1 \<noteq> d2 \<longrightarrow> papers_by_iter_depth g d1 = Some ps1
         \<longrightarrow> papers_by_iter_depth g d2 = Some ps2 \<longrightarrow> scopus_id ` ps1 \<inter> scopus_id ` ps2 = {})"

text \<open>No edge of the graph has a \<open>weight\<close> attribute.\<close>

definition weightless :: "CitationGraph \<Rightarrow> bool" where
  "weightless g = (\<forall>e \<in> set (edges g). map_of (snd e) ''weight'' = None)"

section \<open>The lookup collaborator\<close>

text \<open>
  Modelled from the spec: the module \<open>litcitgraph.requests\<close> with \<open>get_from_scopus\<close> and
  \<open>get_refs_from_scopus\<close> is not among the sources. The spec gives their interface:
  the first resolves one identifier to a paper or to nothing, the second turns a
  frontier into a finite sequence of (parent, child) pairs whose child may be absent.
  Both are parameters of the build, and every theorem holds for all of them.
\<close>

type_synonym get_from_scopus = "string \<Rightarrow> PybliometricsIDTypes \<Rightarrow> int \<Rightarrow> PaperInfo option"

type_synonym get_refs_from_scopus = "PaperInfo set \<Rightarrow> int \<Rightarrow> (PaperInfo \<times> PaperInfo option) list"

section \<open>Initialisation pass\<close>

text \<open>
  One run of the body of the \<open>for identifier in ids\<close> loop of \<open>__initialise\<close>, on the
  graph and the local set \<open>papers_init\<close>.
\<close>

definition initialise_body ::
  "get_from_scopus \<Rightarrow> PybliometricsIDTypes \<Rightarrow> CitationGraph \<times> PaperInfo set \<Rightarrow> string
     \<Rightarrow> CitationGraph \<times> PaperInfo set" where
  "initialise_body get id_type st identifier =
     (let self = fst st; papers_init = snd st;
          paper_info = get identifier id_type (iter_depth self);
          self1 = self\<lparr>retrievals_total := retrievals_total self + 1\<rparr>
      in case paper_info of
           None \<Rightarrow> (self1\<lparr>retrievals_failed := retrievals_failed self1 + 1\<rparr>, papers_init)
         | Some info \<Rightarrow>
             (let node_id = scopus_id info;
                  node_props = graph_properties_as_dict info;
                  self2 = add_cit_graph_node self1 node_id node_props
              in (self2, if info \<notin> papers_init then insert info papers_init else papers_init)))"

fun initialise_loop ::
  "get_from_scopus \<Rightarrow> PybliometricsIDTypes \<Rightarrow> CitationGraph \<times> PaperInfo set \<Rightarrow> string list
     \<Rightarrow> CitationGraph \<times> PaperInfo set" where
  "initialise_loop get id_type st [] = st"
| "initialise_loop get id_type st (identifier # ids) =
     initialise_loop get id_type (initialise_body get id_type st identifier) ids"

definition initialise ::
  "get_from_scopus \<Rightarrow> string list \<Rightarrow> bool \<Rightarrow> CitationGraph \<Rightarrow> CitationGraph" where
  "initialise get ids usedoi self =
     (let self1 = self\<lparr>use_doi := Some usedoi\<rparr>;
          id_type = (if usedoi then ID_doi else ID_eid);
          st = initialise_loop get id_type (self1, {}) ids;
          self2 = fst st
      in self2\<lparr>papers_by_iter_depth := (papers_by_iter_depth self2)(iter_depth self2 \<mapsto> snd st)\<rparr>)"

section \<open>Expansion pass\<close>

text \<open>
  One run of the body of the \<open>for parent, child in references\<close> loop of \<open>__iterate\<close>, on
  the graph and the local set \<open>papers_iteration\<close>. The edge upsert is called without
  \<open>edge_weight\<close>, that is with its default \<open>None\<close>.
\<close>

definition iterate_body ::
  "CitationGraph \<times> PaperInfo set \<Rightarrow> PaperInfo \<times> PaperInfo option
     \<Rightarrow> CitationGraph \<times> PaperInfo set" where
  "iterate_body st pc =
     (let self = fst st; papers_iteration = snd st; parent = fst pc;
          self1 = self\<lparr>retrievals_total := retrievals_total self + 1\<rparr>
      in case snd pc of
           None \<Rightarrow> (self1\<lparr>retrievals_failed := retrievals_failed self1 + 1\<rparr>, papers_iteration)
         | Some child \<Rightarrow>
             (let papers_iteration1 =
                    (if child \<notin> papers_iteration \<and> \<not> has_node self1 (scopus_id child)
                     then insert child papers_iteration else papers_iteration)
              in (add_cit_graph_edge self1
                    (scopus_id parent) (graph_properties_as_dict parent)
                    (scopus_id child) (graph_properties_as_dict child) None,
                  papers_iteration1)))"

fun iterate_loop ::
  "CitationGraph \<times> PaperInfo set \<Rightarrow> (PaperInfo \<times> PaperInfo option) list
     \<Rightarrow> CitationGraph \<times> PaperInfo set" where
  "iterate_loop st [] = st"
| "iterate_loop st (pc # references) = iterate_loop (iterate_body st pc) references"

text \<open>
  The citations among the pairs of a pass: for each pair whose child is present, in
  order, the identifiers of the parent and of the child.
\<close>

fun cited_pairs :: "(PaperInfo \<times> PaperInfo option) list \<Rightarrow> (ScopusID \<times> ScopusID) list" where
  "cited_pairs [] = []"
| "cited_pairs (pc # references) =
     (case snd pc of
        None \<Rightarrow> cited_pairs references
      | Some child \<Rightarrow> (scopus_id (fst pc), scopus_id child) # cited_pairs references)"

text \<open>
  \<open>self.papers_by_iter_depth[self.iter_depth]\<close> raises \<open>KeyError\<close> when the current depth
  has no frontier; the raise leaves the graph as it is.
\<close>

definition iterate :: "get_refs_from_scopus \<Rightarrow> CitationGraph \<Rightarrow> (error \<times> CitationGraph) + CitationGraph" where
  "iterate get_refs self =
     (let target_iter_depth = iter_depth self + 1
      in case papers_by_iter_depth self (iter_depth self) of
           None \<Rightarrow> Inl (KeyError, self)
         | Some papers \<Rightarrow>
             (let references = get_refs papers target_iter_depth;
                  st = iterate_loop (self, {}) references;
                  self1 = (fst st)\<lparr>iter_depth := target_iter_depth\<rparr>
              in Inr (self1\<lparr>papers_by_iter_depth :=
                               (papers_by_iter_depth self1)(iter_depth self1 \<mapsto> snd st)\<rparr>)))"

section \<open>Build orchestration\<close>

text \<open>\<open>for it in range(target_iter_depth): self.__iterate()\<close>; an exception ends the loop.\<close>

fun run_iterations ::
  "get_refs_from_scopus \<Rightarrow> nat \<Rightarrow> CitationGraph \<Rightarrow> (error \<times> CitationGraph) + CitationGraph" where
  "run_iterations get_refs 0 self = Inr self"
| "run_iterations get_refs (Suc n) self =
     (case iterate get_refs self of
        Inl e \<Rightarrow> Inl e
      | Inr self1 \<Rightarrow> run_iterations get_refs n self1)"

text \<open>
  The result is \<open>Inr\<close> of the graph after the build, or \<open>Inl\<close> of the exception raised
  and the graph as it is at the raise.
\<close>

definition build_from_ids ::
  "get_from_scopus \<Rightarrow> get_refs_from_scopus \<Rightarrow> string list \<Rightarrow> bool \<Rightarrow> int \<Rightarrow> CitationGraph
     \<Rightarrow> (error \<times> CitationGraph) + CitationGraph" where
  "build_from_ids get get_refs ids usedoi target_iter_depth self =
     (if target_iter_depth < 0 then Inl (ValueError, self)
      else run_iterations get_refs (nat target_iter_depth) (initialise get ids usedoi self))"

section \<open>The retrievals of a build, one by one\<close>

text \<open>
  Every run of a loop body handles one retrieval: a seed lookup in \<open>__initialise\<close>, a
  (parent, child) pair in \<open>__iterate\<close>. The log of a loop lists, in order, the outcome of
  each retrieval (the paper, or \<open>None\<close>) with the graph right after the body has handled
  it: these graphs are the points at which the counters can be observed during a build.
\<close>

type_synonym retrieval_log = "(PaperInfo option \<times> CitationGraph) list"

fun initialise_log ::
  "get_from_scopus \<Rightarrow> PybliometricsIDTypes \<Rightarrow> CitationGraph \<times> PaperInfo set \<Rightarrow> string list
     \<Rightarrow> retrieval_log" where
  "initialise_log get id_type st [] = []"
| "initialise_log get id_type st (identifier # ids) =
     (get identifier id_type (iter_depth (fst st)), fst (initialise_body get id_type st identifier))
       # initialise_log get id_type (initialise_body get id_type st identifier) ids"

fun iterate_log ::
  "CitationGraph \<times> PaperInfo set \<Rightarrow> (PaperInfo \<times> PaperInfo option) list \<Rightarrow> retrieval_log" where
  "iterate_log st [] = []"
| "iterate_log st (pc # references) =
     (snd pc, fst (iterate_body st pc)) # iterate_log (iterate_body st pc) references"

fun run_iterations_log :: "get_refs_from_scopus \<Rightarrow> nat \<Rightarrow> CitationGraph \<Rightarrow> retrieval_log" where
  "run_iterations_log get_refs 0 self = []"
| "run_iterations_log get_refs (Suc n) self =
     (case papers_by_iter_depth self (iter_depth self) of
        None \<Rightarrow> []
      | Some papers \<Rightarrow>
          iterate_log (self, {}) (get_refs papers (iter_depth self + 1))
            @ (case iterate get_refs self of
                 Inl e \<Rightarrow> []
               | Inr self1 \<Rightarrow> run_iterations_log get_refs n self1))"

definition build_log ::
  "get_from_scopus \<Rightarrow> get_refs_from_scopus \<Rightarrow> string list \<Rightarrow> bool \<Rightarrow> int \<Rightarrow> CitationGraph
     \<Rightarrow> retrieval_log" where
  "build_log get get_refs ids usedoi target_iter_depth self =
     (if target_iter_depth < 0 then []
      else initialise_log get (if usedoi then ID_doi else ID_eid) (self\<lparr>use_doi := Some usedoi\<rparr>, {}) ids
             @ run_iterations_log get_refs (nat target_iter_depth) (initialise get ids usedoi self))"

text \<open>The graphs a build passes through: the graph it starts from, then one per retrieval.\<close>

definition build_points ::
  "get_from_scopus \<Rightarrow> get_refs_from_scopus \<Rightarrow> string list \<Rightarrow> bool \<Rightarrow> int \<Rightarrow> CitationGraph
     \<Rightarrow> CitationGraph list" where
  "build_points get get_refs ids usedoi target_iter_depth self =
     self # map snd (build_log get get_refs ids usedoi target_iter_depth self)"

text \<open>The number of retrievals among the first \<open>n\<close> of a log that resolved to a paper.\<close>

definition resolved_so_far :: "retrieval_log \<Rightarrow> nat \<Rightarrow> nat" where
  "resolved_so_far log n = length (filter (\<lambda>e. fst e \<noteq> None) (take n log))"

text \<open>
  A log is counted from a graph when each entry adds one to \<open>retrievals_total\<close> and
  adds one to \<open>retrievals_failed\<close> exactly when its retrieval resolved to nothing.
\<close>

fun counted :: "CitationGraph \<Rightarrow> retrieval_log \<Rightarrow> bool" where
  "counted g [] = True"
| "counted g (e # log) =
     (retrievals_total (snd e) = retrievals_total g + 1
      \<and> retrievals_failed (snd e) = retrievals_failed g + (if fst e = None then 1 else 0)
      \<and> counted (snd e) log)"

definition log_end :: "CitationGraph \<Rightarrow> retrieval_log \<Rightarrow> CitationGraph" where
  "log_end g log = last (g # map snd log)"

section \<open>Visualisation export\<close>

text \<open>\<open>str\<close> of an attribute value: an integer in decimal, a string as it is.\<close>

fun str_nat :: "nat \<Rightarrow> string" where
  "str_nat n = (if n < 10 then [''0123456789'' ! n]
                else str_nat (n div 10) @ [''0123456789'' ! (n mod 10)])"

declare str_nat.simps [simp del]

definition str_int :: "int \<Rightarrow> string" where
  "str_int i = (if i < 0 then CHR ''-'' # str_nat (nat (- i)) else str_nat (nat i))"

fun py_str :: "attr \<Rightarrow> string" where
  "py_str (IntV i) = str_int i"
| "py_str (StrV s) = s"
| "py_str NoneV = ''None''"

text \<open>
  \<open>transform_graphistry\<close> copies the graph and then mutates the copy in place. Whether
  the original is affected depends on what the two share, so graphs live in a store:
  the list of the graph objects allocated so far, an object's address being its index.
  \<open>copy.deepcopy\<close> allocates a new object that shares nothing with its argument.
  A method runs on an object that exists, so \<open>self\<close> is an address of the store
  (\<open>self < length h\<close>) wherever \<open>transform_graphistry\<close> is used.
\<close>

type_synonym store = "CitationGraph list"

definition deepcopy :: "store \<Rightarrow> nat \<Rightarrow> store \<times> nat" where
  "deepcopy h self = (h @ [h ! self], length h)"

text \<open>\<open>g.nodes[node][key]\<close>, \<open>g.nodes[node][key] = v\<close> and \<open>g.nodes[node].pop(key, None)\<close>
  for the graph at address \<open>g\<close>.\<close>

definition node_attr :: "store \<Rightarrow> nat \<Rightarrow> ScopusID \<Rightarrow> string \<Rightarrow> attr option" where
  "node_attr h g node key =
     (case map_of (nodes (h ! g)) node of None \<Rightarrow> None | Some d \<Rightarrow> map_of d key)"

definition set_node_attr :: "store \<Rightarrow> nat \<Rightarrow> ScopusID \<Rightarrow> string \<Rightarrow> attr \<Rightarrow> store" where
  "set_node_attr h g node key v =
     h[g := (h ! g)\<lparr>nodes := AList.map_entry node (AList.update key v) (nodes (h ! g))\<rparr>]"

definition pop_node_attr :: "store \<Rightarrow> nat \<Rightarrow> ScopusID \<Rightarrow> string \<Rightarrow> store" where
  "pop_node_attr h g node key =
     h[g := (h ! g)\<lparr>nodes := AList.map_entry node (AList.delete key) (nodes (h ! g))\<rparr>]"

text \<open>The body of the loop \<open>for node in export_graph.nodes\<close>; a missing attribute raises
  \<open>KeyError\<close>.\<close>

definition transform_body :: "store \<Rightarrow> nat \<Rightarrow> ScopusID \<Rightarrow> (error \<times> store) + store" where
  "transform_body h export_graph node =
     (case node_attr h export_graph node ''scopus_id'' of
        None \<Rightarrow> Inl (KeyError, h)
      | Some sid \<Rightarrow>
          (let h1 = set_node_attr h export_graph node ''scopus_id'' (StrV (py_str sid))
           in case node_attr h1 export_graph node ''title'' of
                None \<Rightarrow> Inl (KeyError, h1)
              | Some t \<Rightarrow>
                  (let h2 = set_node_attr h1 export_graph node ''paper_title'' t
                   in Inr (pop_node_attr h2 export_graph node ''title''))))"

fun transform_loop :: "store \<Rightarrow> nat \<Rightarrow> ScopusID list \<Rightarrow> (error \<times> store) + store" where
  "transform_loop h export_graph [] = Inr h"
| "transform_loop h export_graph (node # ns) =
     (case transform_body h export_graph node of
        Inl e \<Rightarrow> Inl e
      | Inr h1 \<Rightarrow> transform_loop h1 export_graph ns)"

definition transform_graphistry :: "store \<Rightarrow> nat \<Rightarrow> (error \<times> store) + (store \<times> nat)" where
  "transform_graphistry h self =
     (let c = deepcopy h self; h1 = fst c; export_graph = snd c
      in case transform_loop h1 export_graph (map fst (nodes (h1 ! export_graph))) of
           Inl e \<Rightarrow> Inl e
         | Inr h2 \<Rightarrow> Inr (h2, export_graph))"

text \<open>
  What the export does to the attribute dictionary of one node, read as a map: the
  identifier is replaced by its rendering as text, the title moves to \<open>paper_title\<close>.
\<close>

definition exported_attrs :: "PaperProperties \<Rightarrow> PaperProperties \<Rightarrow> bool" where
  "exported_attrs d d' =
     (case map_of d ''scopus_id'' of
        None \<Rightarrow> False
      | Some sid \<Rightarrow>
          (case map_of d ''title'' of
             None \<Rightarrow> False
           | Some t \<Rightarrow>
               map_of d' = ((map_of d)(''scopus_id'' \<mapsto> StrV (py_str sid), ''paper_title'' \<mapsto> t))
                             (''title'' := None)))"

text \<open>The same change as a function on the dictionary; a dictionary that lacks one of
  the two attributes is left as it is.\<close>

definition export_props :: "PaperProperties \<Rightarrow> PaperProperties" where
  "export_props d =
     (case map_of d ''scopus_id'' of
        None \<Rightarrow> d
      | Some sid \<Rightarrow>
          (case map_of d ''title'' of
             None \<Rightarrow> d
           | Some t \<Rightarrow>
               AList.delete ''title''
                 (AList.update ''paper_title'' t
                    (AList.update ''scopus_id'' (StrV (py_str sid)) d))))"

section \<open>Concrete inputs\<close>

text \<open>
  Two papers, a lookup that resolves the identifier \<open>a\<close> only, a reference lookup
  under which the first paper cites the second, an unresolved target and itself, and a
  reference lookup under which it cites only itself. The theorems are instantiated at
  these inputs below.
\<close>

definition paper_a :: PaperInfo where
  "paper_a = \<lparr>scopus_id = 1,
               graph_properties = [(''scopus_id'', IntV 1), (''title'', StrV ''A'')],
               other_fields = []\<rparr>"

definition paper_b :: PaperInfo where
  "paper_b = \<lparr>scopus_id = 2,
               graph_properties = [(''scopus_id'', IntV 2), (''title'', StrV ''B'')],
               other_fields = []\<rparr>"

definition sample_get :: get_from_scopus where
  "sample_get i t d = (if i = ''a'' then Some paper_a else None)"

definition sample_refs :: get_refs_from_scopus where
  "sample_refs ps d =
     (if d = 1 then [(paper_a, Some paper_b), (paper_a, None), (paper_a, Some paper_a)] else [])"

definition sample_self_refs :: get_refs_from_scopus where
  "sample_self_refs ps d = [(paper_a, Some paper_a)]"

section \<open>Properties\<close>

subsection \<open>Node upsert\<close>

lemma has_node_iff: "has_node g n \<longleftrightarrow> n \<in> fst ` set (nodes g)"
  by (simp add: has_node_def map_of_eq_None_iff)

lemma has_edge_iff: "has_edge g u v \<longleftrightarrow> (u, v) \<in> fst ` set (edges g)"
  by (simp add: has_edge_def map_of_eq_None_iff)

lemma nodes_add_cit_graph_node:
  "nodes (add_cit_graph_node g n props) = (if has_node g n then nodes g else nodes g @ [(n, props)])"
  by (simp add: add_cit_graph_node_def add_node_def has_node_def)

lemma add_cit_graph_node_other [simp]:
  "edges (add_cit_graph_node g n props) = edges g"
  "name (add_cit_graph_node g n props) = name g"
  "use_doi (add_cit_graph_node g n props) = use_doi g"
  "iter_depth (add_cit_graph_node g n props) = iter_depth g"
  "papers_by_iter_depth (add_cit_graph_node g n props) = papers_by_iter_depth g"
  "retrievals_total (add_cit_graph_node g n props) = retrievals_total g"
  "retrievals_failed (add_cit_graph_node g n props) = retrievals_failed g"
  by (simp_all add: add_cit_graph_node_def add_node_def has_node_def split: option.splits)

lemma node_ids_add_cit_graph_node:
  "fst ` set (nodes (add_cit_graph_node g n props)) = insert n (fst ` set (nodes g))"
  by (auto simp: nodes_add_cit_graph_node has_node_iff)

lemma distinct_add_cit_graph_node:
  "distinct (map fst (nodes g)) \<Longrightarrow> distinct (map fst (nodes (add_cit_graph_node g n props)))"
  by (auto simp: nodes_add_cit_graph_node has_node_iff)

lemma map_of_add_cit_graph_node:
  "map_of (nodes (add_cit_graph_node g n props)) m =
     (if m = n \<and> \<not> has_node g n then Some props else map_of (nodes g) m)"
  by (auto simp: nodes_add_cit_graph_node has_node_def map_add_def split: option.splits)

lemma node_ids_add_cit_graph_nodes:
  "fst ` set (nodes (add_cit_graph_nodes g cs)) = fst ` set (nodes g) \<union> fst ` set cs"
  by (induction cs arbitrary: g) (auto simp: node_ids_add_cit_graph_node)

lemma distinct_add_cit_graph_nodes:
  "distinct (map fst (nodes g)) \<Longrightarrow> distinct (map fst (nodes (add_cit_graph_nodes g cs)))"
  by (induction cs arbitrary: g) (auto simp: distinct_add_cit_graph_node)

lemma map_of_add_cit_graph_nodes_kept:
  "map_of (nodes g) n = Some d \<Longrightarrow> map_of (nodes (add_cit_graph_nodes g cs)) n = Some d"
proof (induction cs arbitrary: g)
  case Nil
  then show ?case by simp
next
  case (Cons c cs)
  have "map_of (nodes (add_cit_graph_node g (fst c) (snd c))) n = Some d"
    using Cons.prems by (auto simp: map_of_add_cit_graph_node has_node_def)
  then show ?case using Cons.IH by simp
qed

text \<open>
  Claim C4 (node upsert is idempotent). For a graph whose node keys are pairwise
  distinct, as the keys of a dictionary are, and any sequence of calls of
  \<open>add_cit_graph_node\<close>: the number of nodes afterwards is the number of distinct
  identifiers among the nodes of the graph and the calls, the keys stay distinct, a call
  for an identifier that is already a node returns the graph unchanged whatever the
  properties given, and the attributes stored for a node of the graph are the same after
  the whole sequence.
\<close>

theorem add_cit_graph_node_upsert:
  "distinct (map fst (nodes g)) \<Longrightarrow>
     length (nodes (add_cit_graph_nodes g cs)) = card (fst ` set (nodes g) \<union> fst ` set cs)
   \<and> distinct (map fst (nodes (add_cit_graph_nodes g cs)))
   \<and> (has_node g n \<longrightarrow> add_cit_graph_node g n props = g)
   \<and> (has_node g n \<longrightarrow> map_of (nodes (add_cit_graph_nodes g cs)) n = map_of (nodes g) n)"
proof -
  assume wf: "distinct (map fst (nodes g))"
  have d: "distinct (map fst (nodes (add_cit_graph_nodes g cs)))"
    using wf by (rule distinct_add_cit_graph_nodes)
  then have "length (nodes (add_cit_graph_nodes g cs)) = card (set (map fst (nodes (add_cit_graph_nodes g cs))))"
    by (metis distinct_card length_map)
  then have a: "length (nodes (add_cit_graph_nodes g cs)) = card (fst ` set (nodes g) \<union> fst ` set cs)"
    by (simp add: node_ids_add_cit_graph_nodes)
  have b: "has_node g n \<longrightarrow> add_cit_graph_node g n props = g"
    by (simp add: add_cit_graph_node_def)
  have c: "has_node g n \<longrightarrow> map_of (nodes (add_cit_graph_nodes g cs)) n = map_of (nodes g) n"
    by (auto simp: has_node_def dest: map_of_add_cit_graph_nodes_kept)
  from a d b c show ?thesis by blast
qed

subsection \<open>Edge upsert\<close>

lemma add_cit_graph_edge_unfold:
  "add_cit_graph_edge g p pp c cp w =
     (let g2 = add_cit_graph_node (add_cit_graph_node g p pp) c cp;
          g3 = (if has_edge g2 p c then g2 else g2\<lparr>edges := edges g2 @ [((p, c), [])]\<rparr>)
      in case w of None \<Rightarrow> g3 | Some x \<Rightarrow> set_edge_weight g3 p c x)"
proof -
  let ?g2 = "add_cit_graph_node (add_cit_graph_node g p pp) c cp"
  have n: "has_node ?g2 p" "has_node ?g2 c"
    by (simp_all add: has_node_iff node_ids_add_cit_graph_node)
  have e: "(if \<not> has_edge ?g2 p c then add_edge ?g2 p c else ?g2)
      = (if has_edge ?g2 p c then ?g2 else ?g2\<lparr>edges := edges ?g2 @ [((p, c), [])]\<rparr>)"
    using n by (simp add: add_edge_def)
  have "add_cit_graph_edge g p pp c cp w =
     (let g3 = (if \<not> has_edge ?g2 p c then add_edge ?g2 p c else ?g2)
      in case w of None \<Rightarrow> g3 | Some x \<Rightarrow> set_edge_weight g3 p c x)"
    unfolding add_cit_graph_edge_def add_cit_graph_node_def Let_def ..
  then show ?thesis
    unfolding e by (simp add: Let_def)
qed

lemma nodes_add_cit_graph_edge:
  "nodes (add_cit_graph_edge g p pp c cp w) = nodes (add_cit_graph_node (add_cit_graph_node g p pp) c cp)"
  by (simp add: add_cit_graph_edge_unfold Let_def set_edge_weight_def split: option.splits)

lemma add_cit_graph_edge_other [simp]:
  "name (add_cit_graph_edge g p pp c cp w) = name g"
  "use_doi (add_cit_graph_edge g p pp c cp w) = use_doi g"
  "iter_depth (add_cit_graph_edge g p pp c cp w) = iter_depth g"
  "papers_by_iter_depth (add_cit_graph_edge g p pp c cp w) = papers_by_iter_depth g"
  "retrievals_total (add_cit_graph_edge g p pp c cp w) = retrievals_total g"
  "retrievals_failed (add_cit_graph_edge g p pp c cp w) = retrievals_failed g"
  by (simp_all add: add_cit_graph_edge_unfold Let_def set_edge_weight_def split: option.splits)

lemma edges_add_cit_graph_edge_None:
  "edges (add_cit_graph_edge g p pp c cp None) =
     (if has_edge g p c then edges g else edges g @ [((p, c), [])])"
  by (simp add: add_cit_graph_edge_unfold Let_def has_edge_def)

lemma edges_add_cit_graph_edge_Some:
  "edges (add_cit_graph_edge g p pp c cp (Some x)) =
     AList.map_entry (p, c) (AList.update ''weight'' (IntV x))
       (edges (add_cit_graph_edge g p pp c cp None))"
  by (simp add: add_cit_graph_edge_unfold Let_def set_edge_weight_def)

lemma map_entry_keys: "map fst (AList.map_entry k f al) = map fst al"
  by (induction al) auto

lemma edge_keys_add_cit_graph_edge:
  "map fst (edges (add_cit_graph_edge g p pp c cp w)) =
     (if has_edge g p c then map fst (edges g) else map fst (edges g) @ [(p, c)])"
  by (cases w) (simp_all add: edges_add_cit_graph_edge_Some map_entry_keys edges_add_cit_graph_edge_None)

lemma map_of_edges_add_cit_graph_edge_None:
  "map_of (edges (add_cit_graph_edge g p pp c cp None)) e =
     (if e = (p, c) \<and> \<not> has_edge g p c then Some [] else map_of (edges g) e)"
  by (auto simp: edges_add_cit_graph_edge_None has_edge_def map_add_def split: option.splits)

lemma map_of_edges_add_cit_graph_edge_Some:
  "map_of (edges (add_cit_graph_edge g p pp c cp (Some x))) e =
     (if e = (p, c)
      then Some (AList.update ''weight'' (IntV x) (case map_of (edges g) (p, c) of None \<Rightarrow> [] | Some d \<Rightarrow> d))
      else map_of (edges g) e)"
  by (auto simp: edges_add_cit_graph_edge_Some map_of_map_entry map_of_edges_add_cit_graph_edge_None
      has_edge_def split: option.splits)

lemma distinct_count_none: "x \<notin> set xs \<Longrightarrow> filter (\<lambda>k. k = x) xs = []"
  by (induction xs) auto

lemma distinct_count_one:
  "distinct xs \<Longrightarrow> x \<in> set xs \<Longrightarrow> length (filter (\<lambda>k. k = x) xs) = 1"
  by (induction xs) (auto simp: distinct_count_none)

text \<open>
  Claim C5 (edge upsert). After \<open>add_cit_graph_edge\<close> on a graph whose edge keys are
  pairwise distinct: both endpoints are nodes; a node keeps its attributes when it was
  there before and gets the given properties when it was not; the edge keys stay
  distinct and exactly one edge has the key (parent, child); every other edge is as it
  was; a weight that is not \<open>None\<close> is the \<open>weight\<close> attribute of the edge afterwards,
  whatever it was before; with \<open>None\<close> the \<open>weight\<close> attribute is what it was, and an
  edge that is new has no attribute at all; and another call for the same pair, with any
  properties and weight, leaves the list of edge keys as it is.
\<close>

theorem add_cit_graph_edge_upsert:
  fixes g :: CitationGraph and p c :: ScopusID and pp cp pp' cp' :: PaperProperties
    and w w' :: "int option"
  defines "g' \<equiv> add_cit_graph_edge g p pp c cp w"
  assumes wf: "distinct (map fst (edges g))"
  shows "has_node g' p \<and> has_node g' c
    \<and> (\<forall>n. map_of (nodes g') n =
          (if has_node g n then map_of (nodes g) n
           else if n = p then Some pp else if n = c then Some cp else None))
    \<and> distinct (map fst (edges g'))
    \<and> length (filter (\<lambda>e. fst e = (p, c)) (edges g')) = 1
    \<and> (\<forall>e. e \<noteq> (p, c) \<longrightarrow> map_of (edges g') e = map_of (edges g) e)
    \<and> (\<forall>x. w = Some x \<longrightarrow> edge_attr g' p c ''weight'' = Some (IntV x))
    \<and> (w = None \<longrightarrow> edge_attr g' p c ''weight'' = edge_attr g p c ''weight'')
    \<and> (w = None \<and> \<not> has_edge g p c \<longrightarrow> map_of (edges g') (p, c) = Some [])
    \<and> map fst (edges (add_cit_graph_edge g' p pp' c cp' w')) = map fst (edges g')"
proof -
  have n1: "has_node g' p \<and> has_node g' c"
    by (simp add: g'_def has_node_iff nodes_add_cit_graph_edge node_ids_add_cit_graph_node)
  have n2: "\<forall>n. map_of (nodes g') n =
          (if has_node g n then map_of (nodes g) n
           else if n = p then Some pp else if n = c then Some cp else None)"
    by (auto simp: g'_def nodes_add_cit_graph_edge map_of_add_cit_graph_node has_node_def)
  have d: "distinct (map fst (edges g'))"
    using wf by (auto simp: g'_def edge_keys_add_cit_graph_edge has_edge_iff)
  have mem: "(p, c) \<in> set (map fst (edges g'))"
    by (auto simp: g'_def edge_keys_add_cit_graph_edge has_edge_iff)
  with d have "length (filter (\<lambda>k. k = (p, c)) (map fst (edges g'))) = 1"
    by (rule distinct_count_one)
  then have one: "length (filter (\<lambda>e. fst e = (p, c)) (edges g')) = 1"
    by (simp add: filter_map comp_def)
  have oth: "\<forall>e. e \<noteq> (p, c) \<longrightarrow> map_of (edges g') e = map_of (edges g) e"
    by (cases w) (simp_all add: g'_def map_of_edges_add_cit_graph_edge_None map_of_edges_add_cit_graph_edge_Some)
  have w1: "\<forall>x. w = Some x \<longrightarrow> edge_attr g' p c ''weight'' = Some (IntV x)"
    by (simp add: g'_def edge_attr_def map_of_edges_add_cit_graph_edge_Some update_conv')
  have w2: "w = None \<longrightarrow> edge_attr g' p c ''weight'' = edge_attr g p c ''weight''"
    by (auto simp: g'_def edge_attr_def map_of_edges_add_cit_graph_edge_None has_edge_def)
  have w3: "w = None \<and> \<not> has_edge g p c \<longrightarrow> map_of (edges g') (p, c) = Some []"
    by (simp add: g'_def map_of_edges_add_cit_graph_edge_None)
  have "has_edge g' p c"
    using mem by (simp add: has_edge_iff)
  then have again: "map fst (edges (add_cit_graph_edge g' p pp' c cp' w')) = map fst (edges g')"
    by (simp add: edge_keys_add_cit_graph_edge)
  from n1 n2 d one oth w1 w2 w3 again show ?thesis by blast
qed

subsection \<open>What the passes leave unchanged, and the depth\<close>

lemma initialise_body_frame [simp]:
  "edges (fst (initialise_body get t st i)) = edges (fst st)"
  "name (fst (initialise_body get t st i)) = name (fst st)"
  "use_doi (fst (initialise_body get t st i)) = use_doi (fst st)"
  "iter_depth (fst (initialise_body get t st i)) = iter_depth (fst st)"
  "papers_by_iter_depth (fst (initialise_body get t st i)) = papers_by_iter_depth (fst st)"
  by (simp_all add: initialise_body_def Let_def split: option.splits)

lemma initialise_body_counters:
  "retrievals_total (fst (initialise_body get t st i)) = retrievals_total (fst st) + 1"
  "retrievals_failed (fst (initialise_body get t st i)) =
     retrievals_failed (fst st) + (if get i t (iter_depth (fst st)) = None then 1 else 0)"
  by (simp_all add: initialise_body_def Let_def split: option.splits)

lemma initialise_body_None:
  "get i t (iter_depth (fst st)) = None \<Longrightarrow>
     nodes (fst (initialise_body get t st i)) = nodes (fst st) \<and> snd (initialise_body get t st i) = snd st"
  by (simp add: initialise_body_def Let_def)

lemma initialise_body_Some:
  "get i t (iter_depth (fst st)) = Some info \<Longrightarrow>
     nodes (fst (initialise_body get t st i)) =
       nodes (add_cit_graph_node (fst st) (scopus_id info) (graph_properties_as_dict info))
     \<and> snd (initialise_body get t st i) = insert info (snd st)"
  by (auto simp: initialise_body_def Let_def nodes_add_cit_graph_node has_node_def)

lemma initialise_loop_frame [simp]:
  "edges (fst (initialise_loop get t st ids)) = edges (fst st)"
  "name (fst (initialise_loop get t st ids)) = name (fst st)"
  "use_doi (fst (initialise_loop get t st ids)) = use_doi (fst st)"
  "iter_depth (fst (initialise_loop get t st ids)) = iter_depth (fst st)"
  "papers_by_iter_depth (fst (initialise_loop get t st ids)) = papers_by_iter_depth (fst st)"
  by (induction ids arbitrary: st; simp)+

lemma initialise_frame [simp]:
  "edges (initialise get ids u g) = edges g"
  "name (initialise get ids u g) = name g"
  "use_doi (initialise get ids u g) = Some u"
  "iter_depth (initialise get ids u g) = iter_depth g"
  by (simp_all add: initialise_def Let_def)

lemma papers_initialise:
  "papers_by_iter_depth (initialise get ids u g) =
     (papers_by_iter_depth g)(iter_depth g \<mapsto>
        snd (initialise_loop get (if u then ID_doi else ID_eid) (g\<lparr>use_doi := Some u\<rparr>, {}) ids))"
  by (simp add: initialise_def Let_def)

lemma iterate_body_frame [simp]:
  "name (fst (iterate_body st pc)) = name (fst st)"
  "use_doi (fst (iterate_body st pc)) = use_doi (fst st)"
  "iter_depth (fst (iterate_body st pc)) = iter_depth (fst st)"
  "papers_by_iter_depth (fst (iterate_body st pc)) = papers_by_iter_depth (fst st)"
  by (simp_all add: iterate_body_def Let_def split: option.splits)

lemma iterate_body_counters:
  "retrievals_total (fst (iterate_body st pc)) = retrievals_total (fst st) + 1"
  "retrievals_failed (fst (iterate_body st pc)) =
     retrievals_failed (fst st) + (if snd pc = None then 1 else 0)"
  by (simp_all add: iterate_body_def Let_def split: option.splits)

lemma iterate_loop_frame [simp]:
  "name (fst (iterate_loop st refs)) = name (fst st)"
  "use_doi (fst (iterate_loop st refs)) = use_doi (fst st)"
  "iter_depth (fst (iterate_loop st refs)) = iter_depth (fst st)"
  "papers_by_iter_depth (fst (iterate_loop st refs)) = papers_by_iter_depth (fst st)"
  by (induction refs arbitrary: st; simp)+

lemma iterate_Some:
  assumes "papers_by_iter_depth g (iter_depth g) = Some ps"
  shows "iterate R g =
     Inr ((fst (iterate_loop (g, {}) (R ps (iter_depth g + 1))))
            \<lparr>iter_depth := iter_depth g + 1,
             papers_by_iter_depth := (papers_by_iter_depth g)(iter_depth g + 1 \<mapsto>
                snd (iterate_loop (g, {}) (R ps (iter_depth g + 1))))\<rparr>)"
  using assms by (simp add: iterate_def Let_def)

lemma iterate_None:
  "papers_by_iter_depth g (iter_depth g) = None \<Longrightarrow> iterate R g = Inl (KeyError, g)"
  by (simp add: iterate_def)

lemma iterate_Inr_frame:
  assumes "iterate R g = Inr g'"
  shows "iter_depth g' = iter_depth g + 1"
    and "\<exists>ps. papers_by_iter_depth g (iter_depth g) = Some ps \<and>
           papers_by_iter_depth g' = (papers_by_iter_depth g)(iter_depth g + 1 \<mapsto>
                snd (iterate_loop (g, {}) (R ps (iter_depth g + 1))))
           \<and> nodes g' = nodes (fst (iterate_loop (g, {}) (R ps (iter_depth g + 1))))
           \<and> edges g' = edges (fst (iterate_loop (g, {}) (R ps (iter_depth g + 1))))
           \<and> retrievals_total g' = retrievals_total (fst (iterate_loop (g, {}) (R ps (iter_depth g + 1))))
           \<and> retrievals_failed g' = retrievals_failed (fst (iterate_loop (g, {}) (R ps (iter_depth g + 1))))"
    and "use_doi g' = use_doi g" and "name g' = name g"
  using assms by (auto simp: iterate_def Let_def split: option.splits)

lemma run_iterations_depth:
  assumes "papers_by_iter_depth g (iter_depth g) \<noteq> None"
  shows "\<exists>g'. run_iterations R n g = Inr g'
           \<and> iter_depth g' = iter_depth g + int n
           \<and> dom (papers_by_iter_depth g') = dom (papers_by_iter_depth g) \<union> {iter_depth g + 1 .. iter_depth g + int n}"
  using assms
proof (induction n arbitrary: g)
  case 0
  then show ?case by simp
next
  case (Suc n)
  then obtain ps where ps: "papers_by_iter_depth g (iter_depth g) = Some ps" by auto
  define g1 where "g1 = (fst (iterate_loop (g, {}) (R ps (iter_depth g + 1))))
            \<lparr>iter_depth := iter_depth g + 1,
             papers_by_iter_depth := (papers_by_iter_depth g)(iter_depth g + 1 \<mapsto>
                snd (iterate_loop (g, {}) (R ps (iter_depth g + 1))))\<rparr>"
  have it: "iterate R g = Inr g1"
    unfolding g1_def by (rule iterate_Some [OF ps])
  have d1: "iter_depth g1 = iter_depth g + 1" by (simp add: g1_def)
  have p1: "papers_by_iter_depth g1 (iter_depth g1) \<noteq> None" by (simp add: g1_def)
  have dom1: "dom (papers_by_iter_depth g1) = insert (iter_depth g + 1) (dom (papers_by_iter_depth g))"
    by (simp add: g1_def)
  from Suc.IH [OF p1] obtain g' where g': "run_iterations R n g1 = Inr g'"
    "iter_depth g' = iter_depth g1 + int n"
    "dom (papers_by_iter_depth g') = dom (papers_by_iter_depth g1) \<union> {iter_depth g1 + 1 .. iter_depth g1 + int n}"
    by blast
  have "run_iterations R (Suc n) g = Inr g'" using it g'(1) by simp
  moreover have "iter_depth g' = iter_depth g + int (Suc n)" using g'(2) d1 by simp
  moreover have "dom (papers_by_iter_depth g') = dom (papers_by_iter_depth g) \<union> {iter_depth g + 1 .. iter_depth g + int (Suc n)}"
    using g'(3) d1 dom1 by auto
  ultimately show ?case by blast
qed

lemma initialise_has_frontier:
  "papers_by_iter_depth (initialise get ids u g) (iter_depth (initialise get ids u g)) \<noteq> None"
  by (simp add: papers_initialise)

text \<open>
  Claim C2 (depth contiguity and terminal depth). A build with target depth \<open>k \<ge> 0\<close>
  on a freshly constructed graph returns a graph whose \<open>papers_by_iter_depth\<close> has
  exactly the keys \<open>0, ..., k\<close> and whose \<open>iter_depth\<close> is \<open>k\<close>. An expansion pass that
  returns adds exactly one to \<open>iter_depth\<close>, one that raises leaves the graph as it is,
  and the initialisation pass does not change \<open>iter_depth\<close>.
\<close>

theorem build_depth_contiguity:
  "(0 \<le> k \<longrightarrow>
      (\<exists>g'. build_from_ids get R ids u k (CitationGraph_init nm) = Inr g'
         \<and> dom (papers_by_iter_depth g') = {0 .. k} \<and> iter_depth g' = k))
   \<and> (\<forall>g g1. iterate R g = Inr g1 \<longrightarrow> iter_depth g1 = iter_depth g + 1)
   \<and> (\<forall>g e g1. iterate R g = Inl (e, g1) \<longrightarrow> g1 = g)
   \<and> (\<forall>g. iter_depth (initialise get ids u g) = iter_depth g)"
proof -
  have build: "\<exists>g'. build_from_ids get R ids u k (CitationGraph_init nm) = Inr g'
         \<and> dom (papers_by_iter_depth g') = {0 .. k} \<and> iter_depth g' = k" if k: "0 \<le> k"
  proof -
    let ?g0 = "initialise get ids u (CitationGraph_init nm)"
    have d0: "iter_depth ?g0 = 0" by (simp add: CitationGraph_init_def)
    have dom0: "dom (papers_by_iter_depth ?g0) = {0}"
      by (simp add: papers_initialise CitationGraph_init_def)
    from run_iterations_depth [OF initialise_has_frontier, of R "nat k" get ids u "CitationGraph_init nm"]
    obtain g' where g': "run_iterations R (nat k) ?g0 = Inr g'"
      "iter_depth g' = iter_depth ?g0 + int (nat k)"
      "dom (papers_by_iter_depth g') = dom (papers_by_iter_depth ?g0) \<union> {iter_depth ?g0 + 1 .. iter_depth ?g0 + int (nat k)}"
      by blast
    have "build_from_ids get R ids u k (CitationGraph_init nm) = Inr g'"
      using k g'(1) by (simp add: build_from_ids_def)
    moreover have "iter_depth g' = k" using g'(2) d0 k by simp
    moreover have "dom (papers_by_iter_depth g') = {0 .. k}"
      using g'(3) d0 dom0 k by auto
    ultimately show ?thesis by blast
  qed
  have up: "\<forall>g g1. iterate R g = Inr g1 \<longrightarrow> iter_depth g1 = iter_depth g + 1"
    by (auto dest: iterate_Inr_frame(1))
  have err: "\<forall>g e g1. iterate R g = Inl (e, g1) \<longrightarrow> g1 = g"
    by (auto simp: iterate_def Let_def split: option.splits)
  have ini: "\<forall>g. iter_depth (initialise get ids u g) = iter_depth g"
    by simp
  from build up err ini show ?thesis by blast
qed

subsection \<open>Frontiers\<close>

lemma node_ids_iterate_body:
  "node_ids (fst (iterate_body st pc)) =
     node_ids (fst st) \<union> (case snd pc of None \<Rightarrow> {} | Some c \<Rightarrow> {scopus_id (fst pc), scopus_id c})"
  by (auto simp: node_ids_def iterate_body_def Let_def nodes_add_cit_graph_edge
      node_ids_add_cit_graph_node split: option.splits)

lemma snd_iterate_body:
  "snd (iterate_body st pc) =
     (case snd pc of None \<Rightarrow> snd st
      | Some c \<Rightarrow> if scopus_id c \<in> node_ids (fst st) then snd st else insert c (snd st))"
  by (auto simp: node_ids_def iterate_body_def Let_def has_node_iff split: option.splits)

lemma iterate_loop_frontier:
  "node_ids (fst st) \<subseteq> node_ids (fst (iterate_loop st refs))
   \<and> snd st \<subseteq> snd (iterate_loop st refs)
   \<and> (\<forall>p \<in> snd (iterate_loop st refs) - snd st.
         scopus_id p \<in> node_ids (fst (iterate_loop st refs)) \<and> scopus_id p \<notin> node_ids (fst st))"
proof (induction refs arbitrary: st)
  case Nil
  then show ?case by simp
next
  case (Cons pc refs)
  let ?s1 = "iterate_body st pc"
  have b1: "node_ids (fst st) \<subseteq> node_ids (fst ?s1)"
    by (auto simp: node_ids_iterate_body)
  have b2: "snd st \<subseteq> snd ?s1"
    by (auto simp: snd_iterate_body split: option.splits)
  have b3: "\<forall>p \<in> snd ?s1 - snd st. scopus_id p \<in> node_ids (fst ?s1) \<and> scopus_id p \<notin> node_ids (fst st)"
    by (auto simp: snd_iterate_body node_ids_iterate_body split: option.splits if_splits)
  from Cons.IH [of ?s1] b1 b2 b3 show ?case
    by (simp del: Diff_iff) blast
qed

lemma iterate_new_frontier:
  assumes "iterate R g = Inr g'"
  shows "\<exists>F. papers_by_iter_depth g' = (papers_by_iter_depth g)(iter_depth g + 1 \<mapsto> F)
          \<and> node_ids g \<subseteq> node_ids g'
          \<and> (\<forall>p \<in> F. scopus_id p \<in> node_ids g' \<and> scopus_id p \<notin> node_ids g)"
proof -
  from iterate_Inr_frame(2) [OF assms] obtain ps where
    ps: "papers_by_iter_depth g' = (papers_by_iter_depth g)(iter_depth g + 1 \<mapsto>
                snd (iterate_loop (g, {}) (R ps (iter_depth g + 1))))"
      "nodes g' = nodes (fst (iterate_loop (g, {}) (R ps (iter_depth g + 1))))"
    by blast
  have n: "node_ids g' = node_ids (fst (iterate_loop (g, {}) (R ps (iter_depth g + 1))))"
    using ps(2) by (simp add: node_ids_def)
  from iterate_loop_frontier [of "(g, {})" "R ps (iter_depth g + 1)"] ps(1) n
  show ?thesis by auto
qed

lemma iterate_preserves_disjoint:
  assumes "iterate R g = Inr g'" "frontiers_in_nodes g" "frontiers_disjoint g"
  shows "frontiers_in_nodes g' \<and> frontiers_disjoint g'"
proof -
  from iterate_new_frontier [OF assms(1)] obtain F where
    F: "papers_by_iter_depth g' = (papers_by_iter_depth g)(iter_depth g + 1 \<mapsto> F)"
       "node_ids g \<subseteq> node_ids g'"
       "\<forall>p \<in> F. scopus_id p \<in> node_ids g' \<and> scopus_id p \<notin> node_ids g"
    by blast
  have pw: "papers_by_iter_depth g' d =
      (if d = iter_depth g + 1 then Some F else papers_by_iter_depth g d)" for d
    by (simp add: F(1))
  have "frontiers_in_nodes g'"
    unfolding frontiers_in_nodes_def
  proof (intro allI impI)
    fix d ps assume a: "papers_by_iter_depth g' d = Some ps"
    show "scopus_id ` ps \<subseteq> node_ids g'"
    proof (cases "d = iter_depth g + 1")
      case True
      with a pw [of d] have "ps = F" by simp
      then show ?thesis using F(3) by auto
    next
      case False
      with a pw [of d] have "papers_by_iter_depth g d = Some ps" by simp
      then show ?thesis using assms(2) F(2) unfolding frontiers_in_nodes_def by blast
    qed
  qed
  moreover have "frontiers_disjoint g'"
    unfolding frontiers_disjoint_def
  proof (intro allI impI)
    fix d1 d2 ps1 ps2
    assume ne: "d1 \<noteq> d2" and p1: "papers_by_iter_depth g' d1 = Some ps1"
      and p2: "papers_by_iter_depth g' d2 = Some ps2"
    have new_old: "scopus_id ` F \<inter> scopus_id ` ps = {}" if "papers_by_iter_depth g d = Some ps" for d ps
    proof -
      have "scopus_id ` ps \<subseteq> node_ids g"
        using that assms(2) unfolding frontiers_in_nodes_def by blast
      then show ?thesis using F(3) by auto
    qed
    show "scopus_id ` ps1 \<inter> scopus_id ` ps2 = {}"
    proof (cases "d1 = iter_depth g + 1")
      case True
      then have "ps1 = F" "papers_by_iter_depth g d2 = Some ps2"
        using p1 p2 ne pw [of d1] pw [of d2] by simp_all
      then show ?thesis using new_old by blast
    next
      case False
      note d1 = this
      show ?thesis
      proof (cases "d2 = iter_depth g + 1")
        case True
        then have "ps2 = F" "papers_by_iter_depth g d1 = Some ps1"
          using p1 p2 ne pw [of d1] pw [of d2] by simp_all
        then show ?thesis using new_old by blast
      next
        case False
        then have "papers_by_iter_depth g d1 = Some ps1" "papers_by_iter_depth g d2 = Some ps2"
          using d1 p1 p2 pw [of d1] pw [of d2] by simp_all
        then show ?thesis using assms(3) ne unfolding frontiers_disjoint_def by blast
      qed
    qed
  qed
  ultimately show ?thesis by blast
qed

lemma run_iterations_preserves_disjoint:
  "run_iterations R n g = Inr g' \<Longrightarrow> frontiers_in_nodes g \<Longrightarrow> frontiers_disjoint g
     \<Longrightarrow> frontiers_in_nodes g' \<and> frontiers_disjoint g'"
proof (induction n arbitrary: g)
  case 0
  then show ?case by simp
next
  case (Suc n)
  then obtain g1 where g1: "iterate R g = Inr g1" "run_iterations R n g1 = Inr g'"
    by (auto split: sum.splits)
  from iterate_preserves_disjoint [OF g1(1) Suc.prems(2,3)] Suc.IH [OF g1(2)]
  show ?case by blast
qed

lemma initialise_loop_frontier:
  "node_ids (fst st) \<subseteq> node_ids (fst (initialise_loop get t st ids))
   \<and> (scopus_id ` snd st \<subseteq> node_ids (fst st)
        \<longrightarrow> scopus_id ` snd (initialise_loop get t st ids) \<subseteq> node_ids (fst (initialise_loop get t st ids)))"
proof (induction ids arbitrary: st)
  case Nil
  then show ?case by simp
next
  case (Cons i ids)
  let ?s1 = "initialise_body get t st i"
  have b: "node_ids (fst st) \<subseteq> node_ids (fst ?s1)
     \<and> (scopus_id ` snd st \<subseteq> node_ids (fst st) \<longrightarrow> scopus_id ` snd ?s1 \<subseteq> node_ids (fst ?s1))"
  proof (cases "get i t (iter_depth (fst st))")
    case None
    with initialise_body_None [of get i t st] show ?thesis by (simp add: node_ids_def)
  next
    case (Some info)
    with initialise_body_Some [of get i t st info] show ?thesis
      by (auto simp: node_ids_def node_ids_add_cit_graph_node)
  qed
  from Cons.IH [of ?s1] b show ?case by auto
qed

lemma initialise_establishes_disjoint:
  assumes "papers_by_iter_depth g = Map.empty"
  shows "frontiers_in_nodes (initialise get ids u g) \<and> frontiers_disjoint (initialise get ids u g)"
proof -
  let ?st = "initialise_loop get (if u then ID_doi else ID_eid) (g\<lparr>use_doi := Some u\<rparr>, {}) ids"
  have p: "papers_by_iter_depth (initialise get ids u g) = [iter_depth g \<mapsto> snd ?st]"
    using assms by (simp add: papers_initialise)
  have n: "node_ids (initialise get ids u g) = node_ids (fst ?st)"
    by (simp add: node_ids_def initialise_def Let_def)
  have "scopus_id ` snd ?st \<subseteq> node_ids (fst ?st)"
    using initialise_loop_frontier [of "(g\<lparr>use_doi := Some u\<rparr>, {})"] by simp
  then have "frontiers_in_nodes (initialise get ids u g)"
    unfolding frontiers_in_nodes_def p n by (auto split: if_splits)
  moreover have "frontiers_disjoint (initialise get ids u g)"
    unfolding frontiers_disjoint_def p by (auto split: if_splits)
  ultimately show ?thesis by blast
qed

text \<open>
  Claim C1 (frontier disjointness). A build with a target depth \<open>k \<ge> 0\<close> on a graph
  whose \<open>papers_by_iter_depth\<close> is empty, as it is after construction, returns a graph in
  which no \<open>scopus_id\<close> occurs in the frontiers of two different depths. In an expansion
  pass a child whose \<open>scopus_id\<close> is already a node of the graph is not added to the
  frontier under construction.
\<close>

theorem frontier_disjointness:
  assumes "0 \<le> k" and "papers_by_iter_depth g = Map.empty"
  shows "(\<exists>g'. build_from_ids get R ids u k g = Inr g'
          \<and> (\<forall>d1 d2 ps1 ps2. d1 \<noteq> d2 \<longrightarrow> papers_by_iter_depth g' d1 = Some ps1
                \<longrightarrow> papers_by_iter_depth g' d2 = Some ps2
                \<longrightarrow> scopus_id ` ps1 \<inter> scopus_id ` ps2 = {}))
    \<and> (\<forall>s acc parent child. has_node s (scopus_id child)
          \<longrightarrow> snd (iterate_body (s, acc) (parent, Some child)) = acc)"
proof -
  from run_iterations_depth [OF initialise_has_frontier, of R "nat k" get ids u g]
  obtain g' where g': "run_iterations R (nat k) (initialise get ids u g) = Inr g'" by blast
  from run_iterations_preserves_disjoint [OF g'] initialise_establishes_disjoint [OF assms(2)]
  have "frontiers_disjoint g'" by blast
  moreover have "build_from_ids get R ids u k g = Inr g'"
    using assms(1) g' by (simp add: build_from_ids_def)
  ultimately have a: "\<exists>g'. build_from_ids get R ids u k g = Inr g'
          \<and> (\<forall>d1 d2 ps1 ps2. d1 \<noteq> d2 \<longrightarrow> papers_by_iter_depth g' d1 = Some ps1
                \<longrightarrow> papers_by_iter_depth g' d2 = Some ps2
                \<longrightarrow> scopus_id ` ps1 \<inter> scopus_id ` ps2 = {})"
    unfolding frontiers_disjoint_def by blast
  have b: "\<forall>s acc parent child. has_node s (scopus_id child)
          \<longrightarrow> snd (iterate_body (s, acc) (parent, Some child)) = acc"
    by (simp add: snd_iterate_body node_ids_def has_node_iff)
  from a b show ?thesis by blast
qed

subsection \<open>Counters\<close>

lemma log_end_simps [simp]:
  "log_end g [] = g"
  "log_end g (e # log) = log_end (snd e) log"
  by (simp_all add: log_end_def)

lemma log_end_append: "log_end g (a @ b) = log_end (log_end g a) b"
  by (induction a arbitrary: g) simp_all

lemma counted_cong:
  "retrievals_total g = retrievals_total h \<Longrightarrow> retrievals_failed g = retrievals_failed h
     \<Longrightarrow> counted g log = counted h log"
  by (cases log) simp_all

lemma counted_append: "counted g (a @ b) = (counted g a \<and> counted (log_end g a) b)"
  by (induction a arbitrary: g) auto

lemma initialise_log_counted:
  "counted (fst st) (initialise_log get t st ids)
   \<and> log_end (fst st) (initialise_log get t st ids) = fst (initialise_loop get t st ids)"
  by (induction ids arbitrary: st) (simp_all add: initialise_body_counters)

lemma iterate_log_counted:
  "counted (fst st) (iterate_log st refs)
   \<and> log_end (fst st) (iterate_log st refs) = fst (iterate_loop st refs)"
  by (induction refs arbitrary: st) (simp_all add: iterate_body_counters)

lemma run_iterations_log_counted:
  "counted g (run_iterations_log R n g)
   \<and> (\<forall>g'. run_iterations R n g = Inr g' \<longrightarrow>
         retrievals_total g' = retrievals_total (log_end g (run_iterations_log R n g))
       \<and> retrievals_failed g' = retrievals_failed (log_end g (run_iterations_log R n g)))"
proof (induction n arbitrary: g)
  case 0
  then show ?case by simp
next
  case (Suc n)
  show ?case
  proof (cases "papers_by_iter_depth g (iter_depth g)")
    case None
    then show ?thesis by (simp add: iterate_None)
  next
    case (Some ps)
    let ?refs = "R ps (iter_depth g + 1)"
    let ?l1 = "iterate_log (g, {}) ?refs"
    obtain g1 where g1: "iterate R g = Inr g1"
      using iterate_Some [OF Some] by blast
    from iterate_Inr_frame(2) [OF g1] Some
    have c1: "retrievals_total g1 = retrievals_total (fst (iterate_loop (g, {}) ?refs))"
      "retrievals_failed g1 = retrievals_failed (fst (iterate_loop (g, {}) ?refs))"
      by auto
    have l1: "counted g ?l1" "log_end g ?l1 = fst (iterate_loop (g, {}) ?refs)"
      using iterate_log_counted [of "(g, {})" ?refs] by simp_all
    have log: "run_iterations_log R (Suc n) g = ?l1 @ run_iterations_log R n g1"
      using Some g1 by simp
    have cc: "counted (log_end g ?l1) (run_iterations_log R n g1) = counted g1 (run_iterations_log R n g1)"
      by (rule counted_cong) (simp_all add: l1(2) c1)
    have e: "retrievals_total (log_end (log_end g ?l1) (run_iterations_log R n g1))
           = retrievals_total (log_end g1 (run_iterations_log R n g1))
        \<and> retrievals_failed (log_end (log_end g ?l1) (run_iterations_log R n g1))
           = retrievals_failed (log_end g1 (run_iterations_log R n g1))"
      by (cases "run_iterations_log R n g1") (simp_all add: l1(2) c1)
    have run: "run_iterations R (Suc n) g = run_iterations R n g1"
      using g1 by simp
    show ?thesis
      unfolding log run counted_append log_end_append
      using Suc.IH [of g1] l1(1) cc e by simp
  qed
qed

lemma filter_take_le:
  "m \<le> n \<Longrightarrow> length (filter P (take m xs)) \<le> length (filter P (take n xs))"
proof -
  assume "m \<le> n"
  then have "take m xs = take m (take n xs)" by (simp add: min_def)
  moreover have "length (filter P (take m ys)) \<le> length (filter P ys)" for ys :: "'a list"
    by (metis append_take_drop_id filter_append length_append le_add1)
  ultimately show ?thesis by metis
qed

lemma filter_split_length:
  "length (filter (\<lambda>e. fst e = None) xs) + length (filter (\<lambda>e. fst e \<noteq> None) xs) = length xs"
  by (induction xs) auto

lemma counted_nth:
  "counted g log \<Longrightarrow> n \<le> length log \<Longrightarrow>
     retrievals_total ((g # map snd log) ! n) = retrievals_total g + int n
   \<and> retrievals_failed ((g # map snd log) ! n)
       = retrievals_failed g + int (length (filter (\<lambda>e. fst e = None) (take n log)))"
proof (induction log arbitrary: g n)
  case Nil
  then show ?case by simp
next
  case (Cons e log)
  show ?case
  proof (cases n)
    case 0
    then show ?thesis by simp
  next
    case (Suc m)
    with Cons.prems have "counted (snd e) log" "m \<le> length log" by simp_all
    from Cons.IH [OF this] Cons.prems(1) Suc show ?thesis by simp
  qed
qed

lemma build_log_counted:
  assumes "0 \<le> k"
  shows "counted g (build_log get R ids u k g)
    \<and> (\<exists>g'. build_from_ids get R ids u k g = Inr g'
          \<and> retrievals_total g' = retrievals_total (log_end g (build_log get R ids u k g))
          \<and> retrievals_failed g' = retrievals_failed (log_end g (build_log get R ids u k g)))"
proof -
  let ?t = "if u then ID_doi else ID_eid"
  let ?s0 = "(g\<lparr>use_doi := Some u\<rparr>, {}::PaperInfo set)"
  let ?l0 = "initialise_log get ?t ?s0 ids"
  let ?g0 = "initialise get ids u g"
  let ?l1 = "run_iterations_log R (nat k) ?g0"
  have l: "build_log get R ids u k g = ?l0 @ ?l1"
    using assms by (simp add: build_log_def)
  have c0: "counted (fst ?s0) ?l0" "log_end (fst ?s0) ?l0 = fst (initialise_loop get ?t ?s0 ids)"
    using initialise_log_counted [of ?s0 get ?t ids] by blast+
  have c0': "counted g ?l0" "log_end g ?l0 = log_end (fst ?s0) ?l0 \<or> ?l0 = []"
    using c0(1) counted_cong [of g "fst ?s0" ?l0] by (simp, cases ?l0, simp_all)
  have eq0: "retrievals_total (log_end g ?l0) = retrievals_total ?g0"
    "retrievals_failed (log_end g ?l0) = retrievals_failed ?g0"
    using c0' c0(2) by (auto simp: initialise_def Let_def)
  from run_iterations_depth [OF initialise_has_frontier, of R "nat k" get ids u g]
  obtain g' where g': "run_iterations R (nat k) ?g0 = Inr g'" by blast
  have b: "build_from_ids get R ids u k g = Inr g'"
    using assms g' by (simp add: build_from_ids_def)
  from run_iterations_log_counted [of ?g0 R "nat k"] g'
  have c1: "counted ?g0 ?l1"
    "retrievals_total g' = retrievals_total (log_end ?g0 ?l1)"
    "retrievals_failed g' = retrievals_failed (log_end ?g0 ?l1)"
    by simp_all
  have cc: "counted (log_end g ?l0) ?l1 = counted ?g0 ?l1"
    by (rule counted_cong) (simp_all add: eq0)
  have e: "retrievals_total (log_end (log_end g ?l0) ?l1) = retrievals_total (log_end ?g0 ?l1)
        \<and> retrievals_failed (log_end (log_end g ?l0) ?l1) = retrievals_failed (log_end ?g0 ?l1)"
    by (cases ?l1) (simp_all add: eq0)
  show ?thesis
    unfolding l counted_append log_end_append b
    using c0'(1) c1 cc e by simp
qed

text \<open>
  Claim C6 (counter invariant). For a build with target depth \<open>k \<ge> 0\<close> on a freshly
  constructed graph, at every point of the build (the initial graph and the graph after
  each retrieval, \<open>build_points\<close>): \<open>retrievals_failed \<le> retrievals_total\<close>;
  \<open>retrievals_total\<close> is \<open>retrievals_failed\<close> plus the number of retrievals so far that
  resolved to a paper; and both counters are at least what they were at every earlier
  point. The build returns, and the counters of the graph it returns are those of the
  last point.
\<close>

theorem counter_invariant:
  assumes "0 \<le> k"
  shows "(\<forall>n \<le> length (build_log get R ids u k (CitationGraph_init nm)).
            retrievals_failed (build_points get R ids u k (CitationGraph_init nm) ! n)
              \<le> retrievals_total (build_points get R ids u k (CitationGraph_init nm) ! n)
          \<and> retrievals_total (build_points get R ids u k (CitationGraph_init nm) ! n)
              = retrievals_failed (build_points get R ids u k (CitationGraph_init nm) ! n)
                + int (resolved_so_far (build_log get R ids u k (CitationGraph_init nm)) n)
          \<and> (\<forall>m \<le> n.
                retrievals_total (build_points get R ids u k (CitationGraph_init nm) ! m)
                  \<le> retrievals_total (build_points get R ids u k (CitationGraph_init nm) ! n)
              \<and> retrievals_failed (build_points get R ids u k (CitationGraph_init nm) ! m)
                  \<le> retrievals_failed (build_points get R ids u k (CitationGraph_init nm) ! n)))
       \<and> (\<exists>g'. build_from_ids get R ids u k (CitationGraph_init nm) = Inr g'
             \<and> retrievals_total g' = retrievals_total (last (build_points get R ids u k (CitationGraph_init nm)))
             \<and> retrievals_failed g' = retrievals_failed (last (build_points get R ids u k (CitationGraph_init nm))))"
proof -
  let ?g = "CitationGraph_init nm"
  let ?log = "build_log get R ids u k ?g"
  let ?pts = "build_points get R ids u k ?g"
  have pts: "?pts = ?g # map snd ?log" by (simp add: build_points_def)
  have z: "retrievals_total ?g = 0" "retrievals_failed ?g = 0"
    by (simp_all add: CitationGraph_init_def)
  from build_log_counted [OF assms, of ?g get R ids u]
  have c: "counted ?g ?log"
    and fin: "\<exists>g'. build_from_ids get R ids u k ?g = Inr g'
          \<and> retrievals_total g' = retrievals_total (log_end ?g ?log)
          \<and> retrievals_failed g' = retrievals_failed (log_end ?g ?log)"
    by blast+
  have nth: "retrievals_total (?pts ! n) = int n
      \<and> retrievals_failed (?pts ! n) = int (length (filter (\<lambda>e. fst e = None) (take n ?log)))"
    if "n \<le> length ?log" for n
    using counted_nth [OF c that] z unfolding pts by simp
  have main: "retrievals_failed (?pts ! n) \<le> retrievals_total (?pts ! n)
          \<and> retrievals_total (?pts ! n) = retrievals_failed (?pts ! n) + int (resolved_so_far ?log n)
          \<and> (\<forall>m \<le> n. retrievals_total (?pts ! m) \<le> retrievals_total (?pts ! n)
                \<and> retrievals_failed (?pts ! m) \<le> retrievals_failed (?pts ! n))"
    if n: "n \<le> length ?log" for n
  proof -
    have s: "length (filter (\<lambda>e. fst e = None) (take n ?log)) + resolved_so_far ?log n = n"
      unfolding resolved_so_far_def using filter_split_length [of "take n ?log"] n by simp
    have a: "retrievals_failed (?pts ! n) \<le> retrievals_total (?pts ! n)"
      using nth [OF n] s by linarith
    have b: "retrievals_total (?pts ! n) = retrievals_failed (?pts ! n) + int (resolved_so_far ?log n)"
      using nth [OF n] s by linarith
    have m: "retrievals_total (?pts ! m) \<le> retrievals_total (?pts ! n)
                \<and> retrievals_failed (?pts ! m) \<le> retrievals_failed (?pts ! n)" if "m \<le> n" for m
    proof -
      have "m \<le> length ?log" using that n by simp
      from nth [OF this] nth [OF n] that
        filter_take_le [OF that, of "\<lambda>e. fst e = None" ?log]
      show ?thesis by simp
    qed
    from a b m show ?thesis by blast
  qed
  have "last ?pts = log_end ?g ?log" by (simp add: pts log_end_def)
  with fin have fin': "\<exists>g'. build_from_ids get R ids u k ?g = Inr g'
          \<and> retrievals_total g' = retrievals_total (last ?pts)
          \<and> retrievals_failed g' = retrievals_failed (last ?pts)"
    by simp
  from main have "\<forall>n \<le> length ?log. retrievals_failed (?pts ! n) \<le> retrievals_total (?pts ! n)
          \<and> retrievals_total (?pts ! n) = retrievals_failed (?pts ! n) + int (resolved_so_far ?log n)
          \<and> (\<forall>m \<le> n. retrievals_total (?pts ! m) \<le> retrievals_total (?pts ! n)
                \<and> retrievals_failed (?pts ! m) \<le> retrievals_failed (?pts ! n))"
    by blast
  with fin' show ?thesis by (rule conjI [rotated])
qed

subsection \<open>initialise: the frontier of depth 0 and the seed nodes\<close>

lemma initialise_loop_result:
  "snd (initialise_loop get t st ids)
     = snd st \<union> {p. \<exists>i \<in> set ids. get i t (iter_depth (fst st)) = Some p}
   \<and> node_ids (fst (initialise_loop get t st ids))
     = node_ids (fst st) \<union> scopus_id ` {p. \<exists>i \<in> set ids. get i t (iter_depth (fst st)) = Some p}"
proof (induction ids arbitrary: st)
  case Nil
  then show ?case by simp
next
  case (Cons i ids)
  let ?s1 = "initialise_body get t st i"
  have d: "iter_depth (fst ?s1) = iter_depth (fst st)" by simp
  show ?case
  proof (cases "get i t (iter_depth (fst st))")
    case None
    with initialise_body_None [of get i t st]
    have "snd ?s1 = snd st" "node_ids (fst ?s1) = node_ids (fst st)"
      by (simp_all add: node_ids_def)
    with Cons.IH [of ?s1] None show ?thesis
      by (auto simp: d)
  next
    case (Some info)
    with initialise_body_Some [of get i t st info]
    have "snd ?s1 = insert info (snd st)"
      "node_ids (fst ?s1) = insert (scopus_id info) (node_ids (fst st))"
      by (simp_all add: node_ids_def node_ids_add_cit_graph_node)
    with Cons.IH [of ?s1] Some show ?thesis
      by (auto simp: d)
  qed
qed

lemma initialise_loop_distinct:
  "distinct (map fst (nodes (fst st)))
     \<Longrightarrow> distinct (map fst (nodes (fst (initialise_loop get t st ids))))"
proof (induction ids arbitrary: st)
  case Nil
  then show ?case by simp
next
  case (Cons i ids)
  have "distinct (map fst (nodes (fst (initialise_body get t st i))))"
  proof (cases "get i t (iter_depth (fst st))")
    case None
    with initialise_body_None [of get i t st] Cons.prems show ?thesis by simp
  next
    case (Some info)
    with initialise_body_Some [of get i t st info] Cons.prems show ?thesis
      by (simp add: distinct_add_cit_graph_node)
  qed
  from Cons.IH [OF this] show ?case by simp
qed

lemma nodes_initialise:
  "nodes (initialise get ids u g)
     = nodes (fst (initialise_loop get (if u then ID_doi else ID_eid) (g\<lparr>use_doi := Some u\<rparr>, {}) ids))"
  by (simp add: initialise_def Let_def)

text \<open>
  Claim C7 (initialisation postcondition). After the initialisation pass on a freshly
  constructed graph, \<open>papers_by_iter_depth[0]\<close> is the set of the papers some seed
  resolves to, \<open>iter_depth\<close> is \<open>0\<close> and \<open>use_doi\<close> is the flag given. A seed that does
  not resolve adds one to both counters and changes nothing else, so it creates no node.
  A build with target depth \<open>0\<close> returns the initialised graph: its nodes are the
  \<open>scopus_id\<close>s of the resolved seeds, each once, and it has no edge.
\<close>

theorem initialise_postcondition:
  fixes get :: get_from_scopus and u :: bool and nm :: string and ids :: "string list"
  defines "t \<equiv> (if u then ID_doi else ID_eid)"
  defines "resolved \<equiv> {p. \<exists>i \<in> set ids. get i t 0 = Some p}"
  defines "g0 \<equiv> initialise get ids u (CitationGraph_init nm)"
  shows "papers_by_iter_depth g0 0 = Some resolved
    \<and> iter_depth g0 = 0
    \<and> use_doi g0 = Some u
    \<and> (\<forall>g acc i. get i t (iter_depth g) = None \<longrightarrow>
          initialise_body get t (g, acc) i
            = (g\<lparr>retrievals_total := retrievals_total g + 1,
                 retrievals_failed := retrievals_failed g + 1\<rparr>, acc))
    \<and> build_from_ids get R ids u 0 (CitationGraph_init nm) = Inr g0
    \<and> node_ids g0 = scopus_id ` resolved
    \<and> distinct (map fst (nodes g0))
    \<and> edges g0 = []"
proof -
  let ?s0 = "((CitationGraph_init nm)\<lparr>use_doi := Some u\<rparr>, {}::PaperInfo set)"
  have i0: "iter_depth (fst ?s0) = 0" "node_ids (fst ?s0) = {}" "snd ?s0 = {}"
    "distinct (map fst (nodes (fst ?s0)))"
    by (simp_all add: CitationGraph_init_def node_ids_def)
  from initialise_loop_result [of get t ?s0 ids]
  have r: "snd (initialise_loop get t ?s0 ids) = resolved"
    "node_ids (fst (initialise_loop get t ?s0 ids)) = scopus_id ` resolved"
    unfolding i0 resolved_def by simp_all
  have a: "papers_by_iter_depth g0 0 = Some resolved"
    using r(1) by (simp add: g0_def papers_initialise t_def CitationGraph_init_def)
  have b: "iter_depth g0 = 0" "use_doi g0 = Some u" "edges g0 = []"
    by (simp_all add: g0_def CitationGraph_init_def)
  have c: "\<forall>g acc i. get i t (iter_depth g) = None \<longrightarrow>
          initialise_body get t (g, acc) i
            = (g\<lparr>retrievals_total := retrievals_total g + 1,
                 retrievals_failed := retrievals_failed g + 1\<rparr>, acc)"
    by (simp add: initialise_body_def Let_def)
  have d: "build_from_ids get R ids u 0 (CitationGraph_init nm) = Inr g0"
    by (simp add: build_from_ids_def g0_def)
  have e: "node_ids g0 = scopus_id ` resolved"
    using r(2) by (simp add: g0_def node_ids_def nodes_initialise t_def)
  have f: "distinct (map fst (nodes g0))"
    using initialise_loop_distinct [of ?s0 get t ids] i0(4)
    by (simp add: g0_def nodes_initialise t_def)
  from a b c d e f show ?thesis by blast
qed

subsection \<open>Validation\<close>

lemma build_succeeds:
  "0 \<le> k \<Longrightarrow> \<exists>g'. build_from_ids get R ids u k g = Inr g'"
proof -
  assume k: "0 \<le> k"
  from run_iterations_depth [OF initialise_has_frontier, of R "nat k" get ids u g]
  obtain g' where "run_iterations R (nat k) (initialise get ids u g) = Inr g'" by blast
  with k show ?thesis by (simp add: build_from_ids_def)
qed

text \<open>
  Claim C8 (input validation). With a negative target depth, \<open>build_from_ids\<close> raises
  \<open>ValueError\<close> and the graph at the raise is the graph it was called on, for every
  lookup collaborator and every seed sequence: the outcome does not depend on them, and
  the build handles no retrieval. With a target depth \<open>k \<ge> 0\<close> the build returns and
  raises nothing.
\<close>

theorem build_validation:
  "(k < 0 \<longrightarrow> build_from_ids get R ids u k g = Inl (ValueError, g)
              \<and> build_from_ids get R ids u k g = build_from_ids get' R' ids' u' k g
              \<and> build_log get R ids u k g = [])
   \<and> (0 \<le> k \<longrightarrow> (\<exists>g'. build_from_ids get R ids u k g = Inr g'))"
  using build_succeeds [of k get R ids u g]
  by (simp add: build_from_ids_def build_log_def)

subsection \<open>Edges of a build carry no weight\<close>

lemma iterate_body_edges:
  "edges (fst (iterate_body st pc)) =
     (case snd pc of
        None \<Rightarrow> edges (fst st)
      | Some c \<Rightarrow>
          if has_edge (fst st) (scopus_id (fst pc)) (scopus_id c) then edges (fst st)
          else edges (fst st) @ [((scopus_id (fst pc), scopus_id c), [])])"
  by (simp add: iterate_body_def Let_def edges_add_cit_graph_edge_None has_edge_def
      split: option.splits)

lemma iterate_body_weightless:
  "weightless (fst st) \<Longrightarrow> weightless (fst (iterate_body st pc))"
  by (auto simp: weightless_def iterate_body_edges split: option.splits)

lemma iterate_loop_weightless:
  "weightless (fst st) \<Longrightarrow> weightless (fst (iterate_loop st refs))"
  by (induction refs arbitrary: st) (simp_all add: iterate_body_weightless)

lemma iterate_weightless:
  assumes "iterate R g = Inr g'" "weightless g"
  shows "weightless g'"
proof -
  from iterate_Inr_frame(2) [OF assms(1)] obtain ps where
    "edges g' = edges (fst (iterate_loop (g, {}) (R ps (iter_depth g + 1))))" by blast
  moreover have "weightless (fst (iterate_loop (g, {}) (R ps (iter_depth g + 1))))"
    using assms(2) by (simp add: iterate_loop_weightless)
  ultimately show ?thesis by (simp add: weightless_def)
qed

lemma run_iterations_weightless:
  "run_iterations R n g = Inr g' \<Longrightarrow> weightless g \<Longrightarrow> weightless g'"
proof (induction n arbitrary: g)
  case 0
  then show ?case by simp
next
  case (Suc n)
  then obtain g1 where g1: "iterate R g = Inr g1" "run_iterations R n g1 = Inr g'"
    by (auto split: sum.splits)
  from Suc.IH [OF g1(2)] iterate_weightless [OF g1(1) Suc.prems(2)] show ?case .
qed

text \<open>
  Claim C10 (a build assigns no edge weight). The expansion pass calls the edge upsert
  without a weight (\<open>iterate_body\<close>), so a build with target depth \<open>k \<ge> 0\<close> on a graph
  none of whose edges has a \<open>weight\<close> attribute, a freshly constructed one in
  particular, returns a graph none of whose edges has one.
\<close>

theorem build_assigns_no_weight:
  assumes "0 \<le> k" and "weightless g"
  shows "\<exists>g'. build_from_ids get R ids u k g = Inr g'
           \<and> (\<forall>e \<in> set (edges g'). map_of (snd e) ''weight'' = None)
           \<and> (\<forall>p c. edge_attr g' p c ''weight'' = None)"
proof -
  from build_succeeds [OF assms(1)] obtain g' where g': "build_from_ids get R ids u k g = Inr g'"
    by blast
  then have r: "run_iterations R (nat k) (initialise get ids u g) = Inr g'"
    using assms(1) by (simp add: build_from_ids_def)
  have "weightless (initialise get ids u g)"
    using assms(2) by (simp add: weightless_def)
  from run_iterations_weightless [OF r this] have w: "weightless g'" .
  have "edge_attr g' p c ''weight'' = None" for p c
  proof (cases "map_of (edges g') (p, c)")
    case None
    then show ?thesis by (simp add: edge_attr_def)
  next
    case (Some d)
    then have "((p, c), d) \<in> set (edges g')" by (rule map_of_SomeD)
    with w have "map_of d ''weight'' = None" by (auto simp: weightless_def)
    with Some show ?thesis by (simp add: edge_attr_def)
  qed
  with g' w show ?thesis by (auto simp: weightless_def)
qed

subsection \<open>One pair of an expansion pass\<close>

lemma iterate_body_has_edge:
  "has_edge (fst (iterate_body st (parent, Some child))) (scopus_id parent) (scopus_id child)"
  by (auto simp: has_edge_iff iterate_body_edges)

lemma singleton_seed:
  assumes "get i (if u then ID_doi else ID_eid) 0 = Some p"
  shows "initialise get [i] u (CitationGraph_init nm)
     = (add_cit_graph_node ((CitationGraph_init nm)\<lparr>use_doi := Some u, retrievals_total := 1\<rparr>)
          (scopus_id p) (graph_properties_as_dict p))\<lparr>papers_by_iter_depth := [0 \<mapsto> {p}]\<rparr>"
  using assms
  by (simp add: initialise_def initialise_body_def Let_def CitationGraph_init_def)

lemma iterate_loop_append:
  "iterate_loop st (a @ b) = iterate_loop (iterate_loop st a) b"
  by (induction a arbitrary: st) simp_all

lemma iterate_loop_counters:
  "retrievals_total (fst (iterate_loop st refs)) = retrievals_total (fst st) + int (length refs)
   \<and> retrievals_failed (fst (iterate_loop st refs))
       = retrievals_failed (fst st) + int (length (filter (\<lambda>pc. snd pc = None) refs))"
  by (induction refs arbitrary: st) (simp_all add: iterate_body_counters)

lemma map_of_edges_iterate_body:
  "map_of (edges (fst (iterate_body st pc))) e =
     (case map_of (edges (fst st)) e of
        Some d \<Rightarrow> Some d
      | None \<Rightarrow> if e \<in> set (cited_pairs [pc]) then Some [] else None)"
  by (auto simp: iterate_body_edges has_edge_def map_add_def split: option.splits)

lemma map_of_edges_iterate_loop:
  "map_of (edges (fst (iterate_loop st refs))) e =
     (case map_of (edges (fst st)) e of
        Some d \<Rightarrow> Some d
      | None \<Rightarrow> if e \<in> set (cited_pairs refs) then Some [] else None)"
proof (induction refs arbitrary: st)
  case Nil
  then show ?case by (simp split: option.splits)
next
  case (Cons pc refs)
  have c: "set (cited_pairs (pc # refs)) = set (cited_pairs [pc]) \<union> set (cited_pairs refs)"
    by (simp split: option.splits)
  show ?case
    unfolding c iterate_loop.simps Cons.IH map_of_edges_iterate_body [of st pc e]
    by (simp split: option.splits)
qed

lemma node_ids_iterate_loop:
  "node_ids (fst (iterate_loop st refs))
     = node_ids (fst st) \<union> (\<Union>e \<in> set (cited_pairs refs). {fst e, snd e})"
proof (induction refs arbitrary: st)
  case Nil
  then show ?case by simp
next
  case (Cons pc refs)
  show ?case
    unfolding iterate_loop.simps Cons.IH node_ids_iterate_body
    by (cases "snd pc") auto
qed

lemma nodes_iterate_body:
  "nodes (fst (iterate_body (g, acc) (parent, Some child)))
     = nodes (add_cit_graph_node
         (add_cit_graph_node g (scopus_id parent) (graph_properties_as_dict parent))
         (scopus_id child) (graph_properties_as_dict child))"
  by (simp add: iterate_body_def Let_def nodes_add_cit_graph_edge nodes_add_cit_graph_node
      has_node_iff node_ids_add_cit_graph_node)

text \<open>
  Claim C3 (the pairs of an expansion pass). One pair: when the child is absent, the
  loop body adds one to \<open>retrievals_total\<close> and to \<open>retrievals_failed\<close> and changes
  nothing else, so no node, no edge and no frontier entry; when the child is present,
  the edge from the parent to the child is an edge afterwards whether or not the child
  was a node, the edge list is the old one with that edge appended (without attributes)
  when it was missing, the nodes are those after upserting the parent and then the
  child with their graph properties, the child joins the frontier under construction
  exactly when it is not in it and its \<open>scopus_id\<close> is not a node, \<open>retrievals_failed\<close>
  is unchanged and \<open>retrievals_total\<close> is one more. Every pair: the loop handles the
  pairs one after the other, each by the loop body on the state the pairs before it
  left. The whole pass, for any graph with a frontier at its depth and any sequence of
  pairs the lookup returns: the pass returns; \<open>retrievals_total\<close> has grown by the
  number of pairs and \<open>retrievals_failed\<close> by the number of pairs whose child is
  absent; an edge that was there keeps its attributes, and the new edges, all without
  attributes, are exactly the (parent, child) identifiers of the pairs whose child is
  present (\<open>cited_pairs\<close>); the nodes are the old ones and the endpoints of those pairs.
  Last, when the only seed resolves to a paper whose only reference is the paper
  itself, a build of depth \<open>1\<close> returns a graph whose only edge is the self-loop and
  whose \<open>papers_by_iter_depth[1]\<close> is empty.
\<close>

theorem iterate_pair_processing:
  "iterate_body (g, acc) (parent, None)
      = (g\<lparr>retrievals_total := retrievals_total g + 1,
           retrievals_failed := retrievals_failed g + 1\<rparr>, acc)
   \<and> has_edge (fst (iterate_body (g, acc) (parent, Some child))) (scopus_id parent) (scopus_id child)
   \<and> edges (fst (iterate_body (g, acc) (parent, Some child)))
       = (if has_edge g (scopus_id parent) (scopus_id child) then edges g
          else edges g @ [((scopus_id parent, scopus_id child), [])])
   \<and> nodes (fst (iterate_body (g, acc) (parent, Some child)))
       = nodes (add_cit_graph_node
           (add_cit_graph_node g (scopus_id parent) (graph_properties_as_dict parent))
           (scopus_id child) (graph_properties_as_dict child))
   \<and> snd (iterate_body (g, acc) (parent, Some child))
       = (if child \<notin> acc \<and> \<not> has_node g (scopus_id child) then insert child acc else acc)
   \<and> retrievals_failed (fst (iterate_body (g, acc) (parent, Some child))) = retrievals_failed g
   \<and> retrievals_total (fst (iterate_body (g, acc) (parent, Some child))) = retrievals_total g + 1
   \<and> iterate_loop (g, acc) (pre @ pc # post)
       = iterate_loop (iterate_body (iterate_loop (g, acc) pre) pc) post
   \<and> (papers_by_iter_depth g (iter_depth g) = Some ps \<longrightarrow>
        (\<exists>g'. iterate R g = Inr g'
           \<and> retrievals_total g' = retrievals_total g + int (length (R ps (iter_depth g + 1)))
           \<and> retrievals_failed g'
               = retrievals_failed g
                 + int (length (filter (\<lambda>pc. snd pc = None) (R ps (iter_depth g + 1))))
           \<and> (\<forall>e. map_of (edges g') e =
                 (case map_of (edges g) e of
                    Some d \<Rightarrow> Some d
                  | None \<Rightarrow> if e \<in> set (cited_pairs (R ps (iter_depth g + 1))) then Some [] else None))
           \<and> node_ids g'
               = node_ids g \<union> (\<Union>e \<in> set (cited_pairs (R ps (iter_depth g + 1))). {fst e, snd e})))
   \<and> (get i (if u then ID_doi else ID_eid) 0 = Some p \<and> R {p} 1 = [(p, Some p)] \<longrightarrow>
        (\<exists>g'. build_from_ids get R [i] u 1 (CitationGraph_init nm) = Inr g'
           \<and> edges g' = [((scopus_id p, scopus_id p), [])]
           \<and> papers_by_iter_depth g' 1 = Some {}))"
proof -
  have a: "iterate_body (g, acc) (parent, None)
      = (g\<lparr>retrievals_total := retrievals_total g + 1,
           retrievals_failed := retrievals_failed g + 1\<rparr>, acc)"
    by (simp add: iterate_body_def Let_def)
  have b: "has_edge (fst (iterate_body (g, acc) (parent, Some child))) (scopus_id parent) (scopus_id child)"
    by (rule iterate_body_has_edge)
  have b1: "edges (fst (iterate_body (g, acc) (parent, Some child)))
       = (if has_edge g (scopus_id parent) (scopus_id child) then edges g
          else edges g @ [((scopus_id parent, scopus_id child), [])])"
    by (simp add: iterate_body_edges)
  have b2: "nodes (fst (iterate_body (g, acc) (parent, Some child)))
       = nodes (add_cit_graph_node
           (add_cit_graph_node g (scopus_id parent) (graph_properties_as_dict parent))
           (scopus_id child) (graph_properties_as_dict child))"
    by (rule nodes_iterate_body)
  have b3: "snd (iterate_body (g, acc) (parent, Some child))
       = (if child \<notin> acc \<and> \<not> has_node g (scopus_id child) then insert child acc else acc)"
    by (simp add: iterate_body_def Let_def has_node_def)
  have c: "retrievals_failed (fst (iterate_body (g, acc) (parent, Some child))) = retrievals_failed g"
    by (simp add: iterate_body_counters)
  have d: "retrievals_total (fst (iterate_body (g, acc) (parent, Some child))) = retrievals_total g + 1"
    by (simp add: iterate_body_counters)
  have l: "iterate_loop (g, acc) (pre @ pc # post)
       = iterate_loop (iterate_body (iterate_loop (g, acc) pre) pc) post"
    by (simp add: iterate_loop_append)
  have pass: "\<exists>g'. iterate R g = Inr g'
           \<and> retrievals_total g' = retrievals_total g + int (length (R ps (iter_depth g + 1)))
           \<and> retrievals_failed g'
               = retrievals_failed g
                 + int (length (filter (\<lambda>pc. snd pc = None) (R ps (iter_depth g + 1))))
           \<and> (\<forall>e. map_of (edges g') e =
                 (case map_of (edges g) e of
                    Some d \<Rightarrow> Some d
                  | None \<Rightarrow> if e \<in> set (cited_pairs (R ps (iter_depth g + 1))) then Some [] else None))
           \<and> node_ids g'
               = node_ids g \<union> (\<Union>e \<in> set (cited_pairs (R ps (iter_depth g + 1))). {fst e, snd e})"
    if ps: "papers_by_iter_depth g (iter_depth g) = Some ps"
  proof -
    let ?refs = "R ps (iter_depth g + 1)"
    let ?st = "iterate_loop (g, {}) ?refs"
    let ?g' = "(fst ?st)\<lparr>iter_depth := iter_depth g + 1,
             papers_by_iter_depth := (papers_by_iter_depth g)(iter_depth g + 1 \<mapsto> snd ?st)\<rparr>"
    have r: "iterate R g = Inr ?g'" by (rule iterate_Some [OF ps])
    have t: "retrievals_total ?g' = retrievals_total g + int (length ?refs)"
      "retrievals_failed ?g' = retrievals_failed g + int (length (filter (\<lambda>pc. snd pc = None) ?refs))"
      using iterate_loop_counters [of "(g, {})" ?refs] by simp_all
    have e: "\<forall>e. map_of (edges ?g') e =
                 (case map_of (edges g) e of
                    Some d \<Rightarrow> Some d
                  | None \<Rightarrow> if e \<in> set (cited_pairs ?refs) then Some [] else None)"
      using map_of_edges_iterate_loop [of "(g, {})" ?refs] by simp
    have n: "node_ids ?g' = node_ids g \<union> (\<Union>e \<in> set (cited_pairs ?refs). {fst e, snd e})"
      using node_ids_iterate_loop [of "(g, {})" ?refs] by (simp add: node_ids_def)
    from r t e n show ?thesis by (intro exI [of _ ?g'] conjI)
  qed
  have e: "\<exists>g'. build_from_ids get R [i] u 1 (CitationGraph_init nm) = Inr g'
           \<and> edges g' = [((scopus_id p, scopus_id p), [])]
           \<and> papers_by_iter_depth g' 1 = Some {}"
    if s: "get i (if u then ID_doi else ID_eid) 0 = Some p" and r: "R {p} 1 = [(p, Some p)]"
  proof -
    let ?g0 = "initialise get [i] u (CitationGraph_init nm)"
    have g0: "papers_by_iter_depth ?g0 (iter_depth ?g0) = Some {p}" "iter_depth ?g0 = 0"
      "edges ?g0 = []" "has_node ?g0 (scopus_id p)"
      using singleton_seed [of get i u p nm] s
      by (simp_all add: CitationGraph_init_def has_node_iff node_ids_add_cit_graph_node)
    let ?st = "iterate_body (?g0, {}) (p, Some p)"
    have st: "edges (fst ?st) = [((scopus_id p, scopus_id p), [])]" "snd ?st = {}"
      using g0(3,4) by (simp_all add: iterate_body_edges snd_iterate_body has_edge_def
          node_ids_def has_node_iff)
    from iterate_Some [OF g0(1), of R] r g0(2)
    have "iterate R ?g0 = Inr ((fst ?st)\<lparr>iter_depth := 1,
             papers_by_iter_depth := (papers_by_iter_depth ?g0)(1 \<mapsto> snd ?st)\<rparr>)"
      by simp
    then have "build_from_ids get R [i] u 1 (CitationGraph_init nm)
        = Inr ((fst ?st)\<lparr>iter_depth := 1,
             papers_by_iter_depth := (papers_by_iter_depth ?g0)(1 \<mapsto> snd ?st)\<rparr>)"
      by (simp add: build_from_ids_def)
    with st show ?thesis by simp
  qed
  from pass have pass': "papers_by_iter_depth g (iter_depth g) = Some ps \<longrightarrow>
        (\<exists>g'. iterate R g = Inr g'
           \<and> retrievals_total g' = retrievals_total g + int (length (R ps (iter_depth g + 1)))
           \<and> retrievals_failed g'
               = retrievals_failed g
                 + int (length (filter (\<lambda>pc. snd pc = None) (R ps (iter_depth g + 1))))
           \<and> (\<forall>e. map_of (edges g') e =
                 (case map_of (edges g) e of
                    Some d \<Rightarrow> Some d
                  | None \<Rightarrow> if e \<in> set (cited_pairs (R ps (iter_depth g + 1))) then Some [] else None))
           \<and> node_ids g'
               = node_ids g \<union> (\<Union>e \<in> set (cited_pairs (R ps (iter_depth g + 1))). {fst e, snd e}))"
    by (rule impI)
  from e have e': "get i (if u then ID_doi else ID_eid) 0 = Some p \<and> R {p} 1 = [(p, Some p)] \<longrightarrow>
        (\<exists>g'. build_from_ids get R [i] u 1 (CitationGraph_init nm) = Inr g'
           \<and> edges g' = [((scopus_id p, scopus_id p), [])]
           \<and> papers_by_iter_depth g' 1 = Some {})"
    by blast
  from a b b1 b2 b3 c d l pass' e' show ?thesis by (intro conjI)
qed

subsection \<open>Export\<close>

lemma map_entry_at:
  "k \<notin> fst ` set pre \<Longrightarrow> AList.map_entry k f (pre @ (k, v) # rest) = pre @ (k, f v) # rest"
  by (induction pre) auto

lemma map_of_at:
  "k \<notin> fst ` set pre \<Longrightarrow> map_of (pre @ (k, v) # rest) k = Some v"
  by (induction pre) auto

lemma map_of_map_values:
  "map_of (map (\<lambda>x. (fst x, f (snd x))) al) k = map_option f (map_of al k)"
  by (induction al) auto

lemma export_props_exported:
  "map_of d ''scopus_id'' \<noteq> None \<Longrightarrow> map_of d ''title'' \<noteq> None \<Longrightarrow> exported_attrs d (export_props d)"
  by (auto simp: exported_attrs_def export_props_def delete_conv' update_conv')

lemma transform_body_entry:
  assumes e: "e < length h"
    and n: "nodes (h ! e) = pre @ (n, d) # rest" "n \<notin> fst ` set pre"
    and a: "map_of d ''scopus_id'' \<noteq> None" "map_of d ''title'' \<noteq> None"
  shows "transform_body h e n = Inr (h[e := (h ! e)\<lparr>nodes := pre @ (n, export_props d) # rest\<rparr>])"
proof -
  from a obtain sid t where st: "map_of d ''scopus_id'' = Some sid" "map_of d ''title'' = Some t"
    by auto
  have m0: "map_of (nodes (h ! e)) n = Some d"
    unfolding n(1) using n(2) by (rule map_of_at)
  have l0: "node_attr h e n ''scopus_id'' = Some sid"
    using m0 st(1) by (simp add: node_attr_def)
  let ?d1 = "AList.update ''scopus_id'' (StrV (py_str sid)) d"
  let ?h1 = "set_node_attr h e n ''scopus_id'' (StrV (py_str sid))"
  have h1: "?h1 = h[e := (h ! e)\<lparr>nodes := pre @ (n, ?d1) # rest\<rparr>]"
    using n by (simp add: set_node_attr_def map_entry_at)
  have m1: "map_of (pre @ (n, ?d1) # rest) n = Some ?d1"
    using n(2) by (rule map_of_at)
  have l1: "node_attr ?h1 e n ''title'' = Some t"
    unfolding h1 using e st(2) by (simp add: node_attr_def m1 update_conv' del: map_of_append)
  let ?d2 = "AList.update ''paper_title'' t ?d1"
  let ?h2 = "set_node_attr ?h1 e n ''paper_title'' t"
  have h2: "?h2 = h[e := (h ! e)\<lparr>nodes := pre @ (n, ?d2) # rest\<rparr>]"
    unfolding h1 using e n(2) by (simp add: set_node_attr_def map_entry_at)
  have h3: "pop_node_attr ?h2 e n ''title''
      = h[e := (h ! e)\<lparr>nodes := pre @ (n, AList.delete ''title'' ?d2) # rest\<rparr>]"
    unfolding h2 using e n(2) by (simp add: pop_node_attr_def map_entry_at)
  have "transform_body h e n = Inr (pop_node_attr ?h2 e n ''title'')"
    using l0 l1 by (simp add: transform_body_def Let_def)
  then show ?thesis
    unfolding h3 using st by (simp add: export_props_def)
qed

lemma transform_loop_entries:
  assumes "e < length h"
    and "nodes (h ! e) = pre @ rest"
    and "distinct (map fst (pre @ rest))"
    and "\<forall>x \<in> set rest. map_of (snd x) ''scopus_id'' \<noteq> None \<and> map_of (snd x) ''title'' \<noteq> None"
  shows "transform_loop h e (map fst rest)
     = Inr (h[e := (h ! e)\<lparr>nodes := pre @ map (\<lambda>x. (fst x, export_props (snd x))) rest\<rparr>])"
  using assms
proof (induction rest arbitrary: h pre)
  case Nil
  then have "(h ! e)\<lparr>nodes := pre\<rparr> = h ! e" by simp
  then show ?case by simp
next
  case (Cons x rest)
  obtain n d where x: "x = (n, d)" by (cases x)
  have np: "n \<notin> fst ` set pre" using Cons.prems(3) x by auto
  have a: "map_of d ''scopus_id'' \<noteq> None" "map_of d ''title'' \<noteq> None"
    using Cons.prems(4) x by simp_all
  let ?h1 = "h[e := (h ! e)\<lparr>nodes := pre @ (n, export_props d) # rest\<rparr>]"
  have body: "transform_body h e n = Inr ?h1"
    using Cons.prems(1,2) np a x by (intro transform_body_entry) simp_all
  have p1: "e < length ?h1" using Cons.prems(1) by simp
  have p2: "nodes (?h1 ! e) = (pre @ [(n, export_props d)]) @ rest"
    using Cons.prems(1) by simp
  have p3: "distinct (map fst ((pre @ [(n, export_props d)]) @ rest))"
    using Cons.prems(3) x by simp
  have p4: "\<forall>x \<in> set rest. map_of (snd x) ''scopus_id'' \<noteq> None \<and> map_of (snd x) ''title'' \<noteq> None"
    using Cons.prems(4) by simp
  from Cons.IH [OF p1 p2 p3 p4]
  have "transform_loop ?h1 e (map fst rest)
     = Inr (h[e := (h ! e)\<lparr>nodes := pre @ map (\<lambda>x. (fst x, export_props (snd x))) ((n, d) # rest)\<rparr>])"
    using Cons.prems(1) by simp
  then show ?case using body x by simp
qed

lemma transform_graphistry_result:
  assumes "self < length h"
    and "distinct (map fst (nodes (h ! self)))"
    and "\<forall>x \<in> set (nodes (h ! self)).
           map_of (snd x) ''scopus_id'' \<noteq> None \<and> map_of (snd x) ''title'' \<noteq> None"
  shows "transform_graphistry h self
     = Inr (h @ [(h ! self)\<lparr>nodes := map (\<lambda>x. (fst x, export_props (snd x))) (nodes (h ! self))\<rparr>],
            length h)"
proof -
  let ?h1 = "h @ [h ! self]"
  let ?e = "length h"
  have e: "?e < length ?h1" "?h1 ! ?e = h ! self" by simp_all
  from transform_loop_entries [of ?e ?h1 "[]" "nodes (h ! self)"] assms(2,3) e
  have "transform_loop ?h1 ?e (map fst (nodes (h ! self)))
     = Inr (?h1[?e := (h ! self)\<lparr>nodes := map (\<lambda>x. (fst x, export_props (snd x))) (nodes (h ! self))\<rparr>])"
    by simp
  then show ?thesis
    by (simp add: transform_graphistry_def deepcopy_def Let_def)
qed

text \<open>
  Claim C9 (the export leaves the original unchanged). For a graph object of the store
  whose node keys are pairwise distinct and whose nodes all have the attributes
  \<open>scopus_id\<close> and \<open>title\<close>, \<open>transform_graphistry\<close> returns a new object: its address is
  not that of the original, and every object that was in the store, the original among
  them, is as it was. The new object differs from the original in its node attributes
  only; it has the same nodes in the same order, and for each node the \<open>scopus_id\<close>
  attribute is the text of the original's, \<open>paper_title\<close> is the original's \<open>title\<close>,
  \<open>title\<close> is gone and every other attribute is as it was (\<open>exported_attrs\<close>).
\<close>

theorem transform_graphistry_pure:
  assumes "self < length h"
    and "distinct (map fst (nodes (h ! self)))"
    and "\<forall>x \<in> set (nodes (h ! self)).
           map_of (snd x) ''scopus_id'' \<noteq> None \<and> map_of (snd x) ''title'' \<noteq> None"
  shows "\<exists>h' export_graph.
      transform_graphistry h self = Inr (h', export_graph)
      \<and> export_graph \<noteq> self \<and> export_graph = length h \<and> length h' = Suc (length h)
      \<and> (\<forall>a < length h. h' ! a = h ! a)
      \<and> h' ! export_graph = (h ! self)\<lparr>nodes := nodes (h' ! export_graph)\<rparr>
      \<and> map fst (nodes (h' ! export_graph)) = map fst (nodes (h ! self))
      \<and> (\<forall>n d. map_of (nodes (h ! self)) n = Some d \<longrightarrow>
            (\<exists>d'. map_of (nodes (h' ! export_graph)) n = Some d' \<and> exported_attrs d d'))"
proof -
  let ?N = "map (\<lambda>x. (fst x, export_props (snd x))) (nodes (h ! self))"
  let ?h' = "h @ [(h ! self)\<lparr>nodes := ?N\<rparr>]"
  have r: "transform_graphistry h self = Inr (?h', length h)"
    using assms by (rule transform_graphistry_result)
  have a: "length h \<noteq> self" using assms(1) by simp
  have b: "\<forall>a < length h. ?h' ! a = h ! a" by (simp add: nth_append)
  have c: "?h' ! length h = (h ! self)\<lparr>nodes := nodes (?h' ! length h)\<rparr>" by simp
  have d: "map fst (nodes (?h' ! length h)) = map fst (nodes (h ! self))"
    by (simp add: comp_def)
  have e: "\<exists>d'. map_of (nodes (?h' ! length h)) n = Some d' \<and> exported_attrs d d'"
    if m: "map_of (nodes (h ! self)) n = Some d" for n d
  proof -
    from m have "(n, d) \<in> set (nodes (h ! self))" by (rule map_of_SomeD)
    with assms(3) have "map_of d ''scopus_id'' \<noteq> None" "map_of d ''title'' \<noteq> None" by auto
    then have x: "exported_attrs d (export_props d)" by (rule export_props_exported)
    have "map_of ?N n = map_option export_props (map_of (nodes (h ! self)) n)"
      by (rule map_of_map_values)
    with m x show ?thesis by simp
  qed
  from r a b c d e show ?thesis by (intro exI [of _ ?h'] exI [of _ "length h"]) simp
qed

subsection \<open>The build on the concrete inputs\<close>

lemmas sample_defs =
  CitationGraph_init_def sample_get_def sample_refs_def sample_self_refs_def paper_a_def paper_b_def
  graph_properties_as_dict_def add_cit_graph_node_def add_cit_graph_edge_def add_node_def
  add_edge_def has_node_def has_edge_def initialise_def initialise_body_def iterate_def
  iterate_body_def build_from_ids_def Let_def

lemma sample_initialise:
  "initialise sample_get [''a'', ''x''] True (CitationGraph_init ''G'') =
     \<lparr>nodes = [(1, graph_properties paper_a)], edges = [], name = ''G'', use_doi = Some True,
      iter_depth = 0, papers_by_iter_depth = [0 \<mapsto> {paper_a}],
      retrievals_total = 2, retrievals_failed = 1\<rparr>"
  by (simp add: sample_defs)

lemma sample_build:
  "build_from_ids sample_get sample_refs [''a'', ''x''] True 1 (CitationGraph_init ''G'') =
     Inr \<lparr>nodes = [(1, graph_properties paper_a), (2, graph_properties paper_b)],
          edges = [((1, 2), []), ((1, 1), [])], name = ''G'', use_doi = Some True,
          iter_depth = 1, papers_by_iter_depth = [0 \<mapsto> {paper_a}, 1 \<mapsto> {paper_b}],
          retrievals_total = 5, retrievals_failed = 2\<rparr>"
  by (simp add: sample_defs)

lemma sample_build_result:
  "\<exists>g'. build_from_ids sample_get sample_refs [''a'', ''x''] True 1 (CitationGraph_init ''G'') = Inr g'
      \<and> papers_by_iter_depth g' 0 = Some {paper_a}
      \<and> papers_by_iter_depth g' 1 = Some {paper_b}
      \<and> map fst (edges g') = [(1, 2), (1, 1)]"
  by (simp add: sample_build)

lemma sample_build_log:
  "map fst (build_log sample_get sample_refs [''a'', ''x''] True 1 (CitationGraph_init ''G''))
     = [Some paper_a, None, Some paper_b, None, Some paper_a]"
  by (simp add: build_log_def sample_initialise)
     (simp add: sample_defs)

text \<open>
  Claim C1 at a concrete input: the build of depth 1 from the seeds \<open>a\<close> and \<open>x\<close>: the frontiers of depth 0 and 1 are the two papers, with different identifiers.
\<close>

theorem frontier_disjointness_witness:
  "\<exists>g'. build_from_ids sample_get sample_refs [''a'', ''x''] True 1 (CitationGraph_init ''G'') = Inr g'
      \<and> papers_by_iter_depth g' 0 = Some {paper_a}
      \<and> papers_by_iter_depth g' 1 = Some {paper_b}
      \<and> scopus_id ` {paper_a} \<inter> scopus_id ` {paper_b} = {}"
proof -
  have h1: "(0::int) \<le> 1" by simp
  have h2: "papers_by_iter_depth (CitationGraph_init ''G'') = Map.empty"
    by (simp add: CitationGraph_init_def)
  note fd = frontier_disjointness [OF h1 h2, of sample_get sample_refs "[''a'', ''x'']" True]
  from fd [THEN conjunct1]
  obtain g' where g': "build_from_ids sample_get sample_refs [''a'', ''x''] True 1 (CitationGraph_init ''G'') = Inr g'"
    and dis: "\<forall>d1 d2 ps1 ps2. d1 \<noteq> d2 \<longrightarrow> papers_by_iter_depth g' d1 = Some ps1
          \<longrightarrow> papers_by_iter_depth g' d2 = Some ps2 \<longrightarrow> scopus_id ` ps1 \<inter> scopus_id ` ps2 = {}"
    by (elim exE conjE)
  from sample_build_result obtain x where
    x: "build_from_ids sample_get sample_refs [''a'', ''x''] True 1 (CitationGraph_init ''G'') = Inr x"
      "papers_by_iter_depth x 0 = Some {paper_a}" "papers_by_iter_depth x 1 = Some {paper_b}"
    by (elim exE conjE)
  from g' x(1) have "g' = x" by simp
  with x have p: "papers_by_iter_depth g' 0 = Some {paper_a}" "papers_by_iter_depth g' 1 = Some {paper_b}"
    by simp_all
  have ne: "(0::int) \<noteq> 1" by simp
  from dis [rule_format, OF ne p] have "scopus_id ` {paper_a} \<inter> scopus_id ` {paper_b} = {}" .
  with g' p show ?thesis by (intro exI [of _ g'] conjI)
qed

text \<open>
  Claim C2 at a concrete input: the build of depth 1 from the seeds \<open>a\<close> and \<open>x\<close>.
\<close>

theorem build_depth_contiguity_witness:
  "\<exists>g'. build_from_ids sample_get sample_refs [''a'', ''x''] True 1 (CitationGraph_init ''G'') = Inr g'
      \<and> dom (papers_by_iter_depth g') = {0 .. 1} \<and> iter_depth g' = 1"
  using build_depth_contiguity [of 1 sample_get sample_refs "[''a'', ''x'']" True "''G''"]
  by simp

text \<open>
  Claim C3 at a concrete input: an absent child and a present child on the fresh graph, the pass over three pairs (one of them unresolved) after the seeds \<open>a\<close> and \<open>x\<close>, and the build in which the seed cites itself.
\<close>

theorem iterate_pair_processing_witness:
  "iterate_body (CitationGraph_init ''G'', {}) (paper_a, None)
      = ((CitationGraph_init ''G'')\<lparr>retrievals_total := 1, retrievals_failed := 1\<rparr>, {})
   \<and> has_edge (fst (iterate_body (CitationGraph_init ''G'', {}) (paper_a, Some paper_b))) 1 2
   \<and> (\<exists>g'. iterate sample_refs (initialise sample_get [''a'', ''x''] True (CitationGraph_init ''G'')) = Inr g'
         \<and> retrievals_total g' = 5 \<and> retrievals_failed g' = 2
         \<and> map_of (edges g') (1, 2) = Some [] \<and> map_of (edges g') (1, 1) = Some []
         \<and> map_of (edges g') (2, 1) = None
         \<and> node_ids g' = {1, 2})
   \<and> (\<exists>g'. build_from_ids sample_get sample_self_refs [''a''] True 1 (CitationGraph_init ''G'') = Inr g'
         \<and> edges g' = [((1, 1), [])]
         \<and> papers_by_iter_depth g' 1 = Some {})"
proof -
  let ?g0 = "initialise sample_get [''a'', ''x''] True (CitationGraph_init ''G'')"
  note t1 = iterate_pair_processing [where g = "CitationGraph_init ''G''" and acc = "{}"
      and parent = paper_a and child = paper_b and get = sample_get and i = "''a''" and u = True
      and p = paper_a and R = sample_self_refs and nm = "''G''"]
  note t2 = iterate_pair_processing [where g = ?g0 and ps = "{paper_a}" and R = sample_refs]
  have a: "iterate_body (CitationGraph_init ''G'', {}) (paper_a, None)
      = ((CitationGraph_init ''G'')\<lparr>retrievals_total := 1, retrievals_failed := 1\<rparr>, {})"
    using t1 [THEN conjunct1] by (simp add: CitationGraph_init_def)
  have b: "has_edge (fst (iterate_body (CitationGraph_init ''G'', {}) (paper_a, Some paper_b))) 1 2"
    using t1 [THEN conjunct2, THEN conjunct1] by (simp add: paper_a_def paper_b_def)
  have h: "papers_by_iter_depth ?g0 (iter_depth ?g0) = Some {paper_a}"
    by (simp add: sample_initialise)
  note pass = t2 [THEN conjunct2, THEN conjunct2, THEN conjunct2, THEN conjunct2, THEN conjunct2,
      THEN conjunct2, THEN conjunct2, THEN conjunct2, THEN conjunct1, THEN mp, OF h]
  have refs: "sample_refs {paper_a} (iter_depth ?g0 + 1)
      = [(paper_a, Some paper_b), (paper_a, None), (paper_a, Some paper_a)]"
    by (simp add: sample_initialise sample_refs_def)
  have cp: "cited_pairs [(paper_a, Some paper_b), (paper_a, None), (paper_a, Some paper_a)]
      = [(1, 2), (1, 1)]"
    by (simp add: paper_a_def paper_b_def)
  from pass obtain g' where g': "iterate sample_refs ?g0 = Inr g'"
    and tot: "retrievals_total g' = retrievals_total ?g0
        + int (length (sample_refs {paper_a} (iter_depth ?g0 + 1)))"
    and fl: "retrievals_failed g' = retrievals_failed ?g0
        + int (length (filter (\<lambda>pc. snd pc = None) (sample_refs {paper_a} (iter_depth ?g0 + 1))))"
    and ed: "\<forall>e. map_of (edges g') e =
                 (case map_of (edges ?g0) e of
                    Some d \<Rightarrow> Some d
                  | None \<Rightarrow> if e \<in> set (cited_pairs (sample_refs {paper_a} (iter_depth ?g0 + 1)))
                            then Some [] else None)"
    and nd: "node_ids g' = node_ids ?g0
        \<union> (\<Union>e \<in> set (cited_pairs (sample_refs {paper_a} (iter_depth ?g0 + 1))). {fst e, snd e})"
    by (elim exE conjE)
  have e0: "edges ?g0 = []" "node_ids ?g0 = {1}" "retrievals_total ?g0 = 2" "retrievals_failed ?g0 = 1"
    by (simp_all add: sample_initialise node_ids_def)
  have c1: "retrievals_total g' = 5" using tot unfolding refs e0 by simp
  have c2: "retrievals_failed g' = 2" using fl unfolding refs e0 by simp
  have c3: "map_of (edges g') (1, 2) = Some []" "map_of (edges g') (1, 1) = Some []"
    "map_of (edges g') (2, 1) = None"
    using ed unfolding refs cp e0 by simp_all
  have c4: "node_ids g' = {1, 2}" using nd unfolding refs cp e0 by auto
  have c: "\<exists>g'. iterate sample_refs ?g0 = Inr g'
         \<and> retrievals_total g' = 5 \<and> retrievals_failed g' = 2
         \<and> map_of (edges g') (1, 2) = Some [] \<and> map_of (edges g') (1, 1) = Some []
         \<and> map_of (edges g') (2, 1) = None
         \<and> node_ids g' = {1, 2}"
    using g' c1 c2 c3 c4 by (intro exI [of _ g'] conjI)
  have d: "\<exists>g'. build_from_ids sample_get sample_self_refs [''a''] True 1 (CitationGraph_init ''G'') = Inr g'
         \<and> edges g' = [((1, 1), [])]
         \<and> papers_by_iter_depth g' 1 = Some {}"
    using t1 [THEN conjunct2, THEN conjunct2, THEN conjunct2, THEN conjunct2, THEN conjunct2,
      THEN conjunct2, THEN conjunct2, THEN conjunct2, THEN conjunct2]
    by (simp add: sample_get_def sample_self_refs_def) (simp add: paper_a_def)
  from a b c d show ?thesis by (intro conjI)
qed

text \<open>
  Claim C4 at a concrete input: the fresh graph with node 1, then calls for 1, 2 and 2 again.
\<close>

theorem add_cit_graph_node_upsert_witness:
  "length (nodes (add_cit_graph_nodes (add_cit_graph_node (CitationGraph_init ''G'') 1 [(''title'', StrV ''A'')])
       [(1, [(''title'', StrV ''B'')]), (2, [(''title'', StrV ''C'')]), (2, [])])) = 2
   \<and> add_cit_graph_node (add_cit_graph_node (CitationGraph_init ''G'') 1 [(''title'', StrV ''A'')])
         1 [(''title'', StrV ''B'')]
       = add_cit_graph_node (CitationGraph_init ''G'') 1 [(''title'', StrV ''A'')]
   \<and> map_of (nodes (add_cit_graph_nodes (add_cit_graph_node (CitationGraph_init ''G'') 1 [(''title'', StrV ''A'')])
       [(1, [(''title'', StrV ''B'')]), (2, [(''title'', StrV ''C'')]), (2, [])])) 1
       = Some [(''title'', StrV ''A'')]"
proof -
  let ?g = "add_cit_graph_node (CitationGraph_init ''G'') 1 [(''title'', StrV ''A'')]"
  have n: "nodes ?g = [(1, [(''title'', StrV ''A'')])]"
    by (simp add: add_cit_graph_node_def add_node_def has_node_def CitationGraph_init_def)
  have h: "distinct (map fst (nodes ?g))" by (simp add: n)
  have c: "card (fst ` set (nodes ?g)
      \<union> fst ` set [(1::int, [(''title'', StrV ''B'')]), (2, [(''title'', StrV ''C'')]), (2, [])]) = 2"
    by (simp add: n insert_commute)
  have m: "has_node ?g 1" by (simp add: has_node_def n)
  note t = add_cit_graph_node_upsert [OF h, of
      "[(1, [(''title'', StrV ''B'')]), (2, [(''title'', StrV ''C'')]), (2, [])]" 1 "[(''title'', StrV ''B'')]"]
  from t [THEN conjunct1] c have a: "length (nodes (add_cit_graph_nodes ?g
       [(1, [(''title'', StrV ''B'')]), (2, [(''title'', StrV ''C'')]), (2, [])])) = 2"
    by (simp only:)
  from t [THEN conjunct2, THEN conjunct2, THEN conjunct1] m
  have b: "add_cit_graph_node ?g 1 [(''title'', StrV ''B'')] = ?g"
    by (rule mp)
  from t [THEN conjunct2, THEN conjunct2, THEN conjunct2] m
  have "map_of (nodes (add_cit_graph_nodes ?g
       [(1, [(''title'', StrV ''B'')]), (2, [(''title'', StrV ''C'')]), (2, [])])) 1 = map_of (nodes ?g) 1"
    by (rule mp)
  then have d: "map_of (nodes (add_cit_graph_nodes ?g
       [(1, [(''title'', StrV ''B'')]), (2, [(''title'', StrV ''C'')]), (2, [])])) 1
       = Some [(''title'', StrV ''A'')]"
    by (simp only: n map_of.simps fst_conv snd_conv fun_upd_same)
  from a b d show ?thesis by (intro conjI)
qed

text \<open>
  Claim C5 at a concrete input: the edge from 1 to 2 on the fresh graph, given the weight 3 and then 5, or then none.
\<close>

theorem add_cit_graph_edge_upsert_witness:
  "edge_attr (add_cit_graph_edge (add_cit_graph_edge (CitationGraph_init ''G'') 1 [] 2 [] (Some 3))
       1 [] 2 [] (Some 5)) 1 2 ''weight'' = Some (IntV 5)
   \<and> edge_attr (add_cit_graph_edge (add_cit_graph_edge (CitationGraph_init ''G'') 1 [] 2 [] (Some 3))
       1 [] 2 [] None) 1 2 ''weight'' = Some (IntV 3)
   \<and> map_of (edges (add_cit_graph_edge (CitationGraph_init ''G'') 1 [] 2 [] None)) (1, 2) = Some []
   \<and> length (filter (\<lambda>e. fst e = (1, 2))
        (edges (add_cit_graph_edge (add_cit_graph_edge (CitationGraph_init ''G'') 1 [] 2 [] (Some 3))
           1 [] 2 [] (Some 5)))) = 1"
proof -
  let ?g0 = "CitationGraph_init ''G''"
  let ?g1 = "add_cit_graph_edge ?g0 1 [] 2 [] (Some 3)"
  have e0: "edges ?g0 = []" by (simp add: CitationGraph_init_def)
  have h0: "distinct (map fst (edges ?g0))" by (simp add: e0)
  have n0: "\<not> has_edge ?g0 1 2" by (simp add: has_edge_def e0)
  have w1: "edge_attr ?g1 1 2 ''weight'' = Some (IntV 3)" and h1: "distinct (map fst (edges ?g1))"
    using add_cit_graph_edge_upsert [OF h0, of 1 "[]" 2 "[]" "Some 3" "[]" "[]" None] by simp_all
  from add_cit_graph_edge_upsert [OF h1, of 1 "[]" 2 "[]" "Some 5" "[]" "[]" None]
    add_cit_graph_edge_upsert [OF h1, of 1 "[]" 2 "[]" None "[]" "[]" None]
    add_cit_graph_edge_upsert [OF h0, of 1 "[]" 2 "[]" None "[]" "[]" None]
    w1 n0
  show ?thesis by simp
qed

text \<open>
  Claim C6 at a concrete input: the build of depth 1 from the seeds \<open>a\<close> and \<open>x\<close>, after four of its five retrievals, two of them resolved.
\<close>

theorem counter_invariant_witness:
  "retrievals_failed (build_points sample_get sample_refs [''a'', ''x''] True 1 (CitationGraph_init ''G'') ! 4)
     \<le> retrievals_total (build_points sample_get sample_refs [''a'', ''x''] True 1 (CitationGraph_init ''G'') ! 4)
   \<and> retrievals_total (build_points sample_get sample_refs [''a'', ''x''] True 1 (CitationGraph_init ''G'') ! 4)
     = retrievals_failed (build_points sample_get sample_refs [''a'', ''x''] True 1 (CitationGraph_init ''G'') ! 4) + 2
   \<and> retrievals_total (build_points sample_get sample_refs [''a'', ''x''] True 1 (CitationGraph_init ''G'') ! 2)
     \<le> retrievals_total (build_points sample_get sample_refs [''a'', ''x''] True 1 (CitationGraph_init ''G'') ! 4)"
proof -
  let ?log = "build_log sample_get sample_refs [''a'', ''x''] True 1 (CitationGraph_init ''G'')"
  have l: "length ?log = 5"
    using arg_cong [OF sample_build_log, of length] by simp
  have "length (filter (\<lambda>r. r \<noteq> None) (take 4 (map fst ?log))) = 2"
    unfolding sample_build_log by simp
  then have r: "resolved_so_far ?log 4 = 2"
    by (simp add: resolved_so_far_def take_map filter_map comp_def)
  have h: "(0::int) \<le> 1" by simp
  note ci = counter_invariant [OF h, of sample_get sample_refs "[''a'', ''x'']" True "''G''"]
  have n4: "4 \<le> length ?log" by (simp add: l)
  note c4 = ci [THEN conjunct1, rule_format, OF n4]
  have m2: "(2::nat) \<le> 4" by simp
  note c42 = c4 [THEN conjunct2, THEN conjunct2, rule_format, OF m2]
  from c4 c42 r show ?thesis by simp
qed

text \<open>
  Claim C7 at a concrete input: the seeds \<open>a\<close>, which resolves, and \<open>x\<close>, which does not.
\<close>

theorem initialise_postcondition_witness:
  "papers_by_iter_depth (initialise sample_get [''a'', ''x''] True (CitationGraph_init ''G'')) 0
      = Some {paper_a}
   \<and> use_doi (initialise sample_get [''a'', ''x''] True (CitationGraph_init ''G'')) = Some True
   \<and> initialise_body sample_get ID_doi (CitationGraph_init ''G'', {}) ''x''
      = ((CitationGraph_init ''G'')\<lparr>retrievals_total := 1, retrievals_failed := 1\<rparr>, {})
   \<and> build_from_ids sample_get sample_refs [''a'', ''x''] True 0 (CitationGraph_init ''G'')
      = Inr (initialise sample_get [''a'', ''x''] True (CitationGraph_init ''G''))
   \<and> node_ids (initialise sample_get [''a'', ''x''] True (CitationGraph_init ''G'')) = {1}
   \<and> edges (initialise sample_get [''a'', ''x''] True (CitationGraph_init ''G'')) = []"
proof -
  have r: "{p. \<exists>i \<in> set [''a'', ''x'']. sample_get i (if True then ID_doi else ID_eid) 0 = Some p} = {paper_a}"
    by (auto simp: sample_get_def)
  have x: "sample_get ''x'' ID_doi (iter_depth (CitationGraph_init ''G'')) = None"
    by (simp add: sample_get_def)
  from initialise_postcondition [of sample_get "[''a'', ''x'']" True "''G''" sample_refs] x
  show ?thesis
    unfolding r by (simp add: CitationGraph_init_def paper_a_def)
qed

text \<open>
  Claim C8 at a concrete input: the target depths \<open>-1\<close> and \<open>0\<close>.
\<close>

theorem build_validation_witness:
  "build_from_ids sample_get sample_refs [''a'', ''x''] True (- 1) (CitationGraph_init ''G'')
      = Inl (ValueError, CitationGraph_init ''G'')
   \<and> build_log sample_get sample_refs [''a'', ''x''] True (- 1) (CitationGraph_init ''G'') = []
   \<and> (\<exists>g'. build_from_ids sample_get sample_refs [''a'', ''x''] True 0 (CitationGraph_init ''G'') = Inr g')"
  using build_validation [of "- 1" sample_get sample_refs "[''a'', ''x'']" True "CitationGraph_init ''G''"
      sample_get sample_refs "[]" False]
    build_validation [of 0 sample_get sample_refs "[''a'', ''x'']" True "CitationGraph_init ''G''"
      sample_get sample_refs "[]" False]
  by simp

text \<open>
  Claim C10 at a concrete input: the build of depth 1 from the seeds \<open>a\<close> and \<open>x\<close>, which creates two edges.
\<close>

theorem build_assigns_no_weight_witness:
  "\<exists>g'. build_from_ids sample_get sample_refs [''a'', ''x''] True 1 (CitationGraph_init ''G'') = Inr g'
      \<and> map fst (edges g') = [(1, 2), (1, 1)]
      \<and> edge_attr g' 1 2 ''weight'' = None \<and> edge_attr g' 1 1 ''weight'' = None"
proof -
  have h1: "(0::int) \<le> 1" by simp
  have h2: "weightless (CitationGraph_init ''G'')"
    by (simp add: weightless_def CitationGraph_init_def)
  from build_assigns_no_weight [OF h1 h2, of sample_get sample_refs "[''a'', ''x'']" True]
  obtain g' where g': "build_from_ids sample_get sample_refs [''a'', ''x''] True 1 (CitationGraph_init ''G'') = Inr g'"
    and w: "\<And>p c. edge_attr g' p c ''weight'' = None"
    by blast
  from sample_build_result obtain x where
    x: "build_from_ids sample_get sample_refs [''a'', ''x''] True 1 (CitationGraph_init ''G'') = Inr x"
      "map fst (edges x) = [(1, 2), (1, 1)]"
    by (elim exE conjE)
  from g' x(1) have "g' = x" by simp
  with x have e: "map fst (edges g') = [(1, 2), (1, 1)]" by simp
  show ?thesis
    using g' e w [of 1 2] w [of 1 1] by (intro exI [of _ g'] conjI)
qed

text \<open>
  Claim C9 at a concrete input: a store holding one graph with one node.
\<close>

theorem transform_graphistry_pure_witness:
  "\<exists>h' d'. transform_graphistry [add_cit_graph_node (CitationGraph_init ''G'') 1 (graph_properties paper_a)] 0
        = Inr (h', 1)
      \<and> h' ! 0 = add_cit_graph_node (CitationGraph_init ''G'') 1 (graph_properties paper_a)
      \<and> map_of (nodes (h' ! 1)) 1 = Some d'
      \<and> map_of d' ''scopus_id'' = Some (StrV ''1'')
      \<and> map_of d' ''paper_title'' = Some (StrV ''A'')
      \<and> map_of d' ''title'' = None"
proof -
  let ?g = "add_cit_graph_node (CitationGraph_init ''G'') 1 (graph_properties paper_a)"
  have n: "nodes ?g = [(1, [(''scopus_id'', IntV 1), (''title'', StrV ''A'')])]"
    by (simp add: add_cit_graph_node_def add_node_def has_node_def CitationGraph_init_def paper_a_def)
  have h1: "0 < length [?g]" by simp
  have h2: "distinct (map fst (nodes ([?g] ! 0)))" by (simp add: n)
  have h3: "\<forall>x \<in> set (nodes ([?g] ! 0)).
           map_of (snd x) ''scopus_id'' \<noteq> None \<and> map_of (snd x) ''title'' \<noteq> None"
    by (simp add: n)
  from transform_graphistry_pure [OF h1 h2 h3]
  obtain h' e where r: "transform_graphistry [?g] 0 = Inr (h', e)" "e = length [?g]"
    "\<forall>a < length [?g]. h' ! a = [?g] ! a"
    "\<forall>m d. map_of (nodes ([?g] ! 0)) m = Some d \<longrightarrow>
            (\<exists>d'. map_of (nodes (h' ! e)) m = Some d' \<and> exported_attrs d d')"
    by blast
  have "map_of (nodes ([?g] ! 0)) 1 = Some [(''scopus_id'', IntV 1), (''title'', StrV ''A'')]"
    by (simp add: n)
  from r(4) [rule_format, OF this]
  obtain d' where d': "map_of (nodes (h' ! e)) 1 = Some d'"
    "exported_attrs [(''scopus_id'', IntV 1), (''title'', StrV ''A'')] d'"
    by blast
  from d'(2) have at: "map_of d' ''scopus_id'' = Some (StrV ''1'')"
    "map_of d' ''paper_title'' = Some (StrV ''A'')" "map_of d' ''title'' = None"
    by (simp_all add: exported_attrs_def str_int_def str_nat.simps)
  have e1: "e = 1" using r(2) by simp
  have h0: "h' ! 0 = ?g" using r(3) by simp
  from r(1) e1 h0 d'(1) at show ?thesis
    by (intro exI [of _ h'] exI [of _ d']) simp
qed

end
